theory Spec2Isabelle
  imports Main "HOL-Library.Word"
begin

unbundle bit_operations_syntax

section \<open>Bytes, buffers and the Buffer operations the code uses\<close>

text \<open>
  A \<open>Buffer\<close> is a mutable array of bytes. Buffers that the sender mutates live in a
  store, addressed by references: \<open>MaskBuf\<close> is the module-level \<open>mask\<close> buffer of
  sender.js (\<open>const mask = Buffer.alloc(4)\<close>), \<open>Buf n\<close> are the buffers of callers.
  Buffers that are only read (a delivered chunk, the payload of a response) are values.
\<close>

type_synonym byte = "8 word"

datatype ref = MaskBuf | Buf nat

type_synonym heap = "ref \<Rightarrow> byte list"

text \<open>\<open>buf[i]\<close>: a read out of range yields \<open>undefined\<close> (here \<open>None\<close>).\<close>

definition js_index :: "byte list \<Rightarrow> nat \<Rightarrow> byte option" where
  "js_index buf i = (if i < length buf then Some (buf ! i) else None)"

text \<open>The bitwise operators turn \<open>undefined\<close> into 0 (ToInt32).\<close>

definition toInt32 :: "byte option \<Rightarrow> byte" where
  "toInt32 v = (case v of None \<Rightarrow> 0 | Some b \<Rightarrow> b)"

text \<open>
  \<open>buf[i] = v\<close>: a write out of range is ignored by a typed array, which is what
  \<open>buf[i := v]\<close> does on a list.
\<close>

section \<open>utils.js\<close>

text \<open>
  \<^verbatim>\<open>
  function applyMask(source, mask, output, offset, length) {
    for (let i = 0; i < length; i++) {
      output[offset + i] = source[i] ^ mask[i & 3];
    }
  }
  \<close>
  The three buffers are references, so that \<open>source\<close> and \<open>output\<close> may be the same
  buffer, as they are in \<open>createFrameBuffer\<close>.
\<close>

definition applyMask_step :: "ref \<Rightarrow> ref \<Rightarrow> ref \<Rightarrow> nat \<Rightarrow> nat \<Rightarrow> heap \<Rightarrow> heap" where
  "applyMask_step source msk output offset i h =
     h(output := (h output)[offset + i :=
         toInt32 (js_index (h source) i) XOR toInt32 (js_index (h msk) (i AND 3))])"

definition applyMask :: "heap \<Rightarrow> ref \<Rightarrow> ref \<Rightarrow> ref \<Rightarrow> nat \<Rightarrow> nat \<Rightarrow> heap" where
  "applyMask h source msk output offset len =
     fold (applyMask_step source msk output offset) [0..<len] h"

text \<open>
  A JavaScript string is either a literal of the source, or the result of
  \<open>buf.toString()\<close>, which decodes bytes as UTF-8 and is denoted by the bytes it was
  decoded from, or the message \<open>Unhandled error. (...)\<close> that \<open>EventEmitter.emit\<close> builds
  around a value that is not an Error.
\<close>

datatype jsstr = Lit string | Utf8 "byte list" | Unhandled jsstr

datatype error = Error jsstr | RangeError jsstr | TypeError jsstr

fun message :: "error \<Rightarrow> jsstr" where
  "message (Error m) = m"
| "message (RangeError m) = m"
| "message (TypeError m) = m"

text \<open>
  The operations of \<open>Buffer\<close> are those of the Node.js Buffer API, which the code is
  written against; the library itself is not part of the repository. What they do on
  arguments out of range (a negative size, a start beyond the end, a value that does not
  fit) is taken from that API; it matters only for frames that are cut short.

  \<open>Buffer.allocUnsafe(n)\<close> returns \<open>n\<close> bytes of unspecified content, here the first
  \<open>n\<close> values of an arbitrary function; \<open>Buffer.alloc(n)\<close> returns \<open>n\<close> zero bytes and
  throws a RangeError for a negative size.
\<close>

definition Buffer_allocUnsafe :: "(nat \<Rightarrow> byte) \<Rightarrow> nat \<Rightarrow> byte list" where
  "Buffer_allocUnsafe junk n = map junk [0..<n]"

definition Buffer_alloc :: "int \<Rightarrow> error + byte list" where
  "Buffer_alloc n =
     (if n < 0 then Inl (RangeError (Lit ''The value of size is out of range''))
      else Inr (replicate (nat n) 0))"

text \<open>
  \<open>source.copy(target, targetStart, sourceStart, sourceEnd)\<close> copies the bytes
  \<open>sourceStart ..< min sourceEnd source.length\<close> to \<open>target\<close> from \<open>targetStart\<close> on, as
  many as fit, and returns the number of bytes copied (not the target). It throws a
  RangeError when \<open>sourceStart\<close> is negative or beyond \<open>source.length\<close>, or
  \<open>sourceEnd\<close> is negative. A missing \<open>sourceEnd\<close> is \<open>source.length\<close>.
\<close>

definition Buffer_copy ::
  "byte list \<Rightarrow> byte list \<Rightarrow> nat \<Rightarrow> int \<Rightarrow> int option \<Rightarrow> error + (byte list \<times> nat)" where
  "Buffer_copy source target targetStart sourceStart sourceEnd =
     (if sourceStart < 0 \<or> int (length source) < sourceStart
      then Inl (RangeError (Lit ''The value of sourceStart is out of range''))
      else if (case sourceEnd of None \<Rightarrow> False | Some e \<Rightarrow> e < 0)
      then Inl (RangeError (Lit ''The value of sourceEnd is out of range''))
      else
        (let e = (case sourceEnd of None \<Rightarrow> length source
                  | Some e \<Rightarrow> min (nat e) (length source));
             n = min (e - nat sourceStart) (length target - targetStart)
         in Inr (take targetStart target @ take n (drop (nat sourceStart) source)
                   @ drop (targetStart + n) target, n)))"

text \<open>
  \<open>buf.writeUInt16BE(value, offset)\<close> and \<open>buf.writeUInt32BE(value, offset)\<close> throw a
  RangeError when the value does not fit or the bytes do not lie inside the buffer.
\<close>

definition writeUInt16BE :: "byte list \<Rightarrow> nat \<Rightarrow> nat \<Rightarrow> error + byte list" where
  "writeUInt16BE buf v off =
     (if 65535 < v \<or> length buf < off + 2
      then Inl (RangeError (Lit ''The value is out of range''))
      else Inr (buf[off := of_nat (v div 256), off + 1 := of_nat v]))"

definition writeUInt32BE :: "byte list \<Rightarrow> nat \<Rightarrow> nat \<Rightarrow> error + byte list" where
  "writeUInt32BE buf v off =
     (if 4294967295 < v \<or> length buf < off + 4
      then Inl (RangeError (Lit ''The value is out of range''))
      else Inr (buf[off := of_nat (v div 16777216), off + 1 := of_nat (v div 65536),
                    off + 2 := of_nat (v div 256), off + 3 := of_nat v]))"

text \<open>
  \<^verbatim>\<open>
  function randomFillSync(target, offset, length) {
    const bytes = randomBytes(length);
    bytes.copy(target, offset, 0, length);
  }
  \<close>
  The bytes that \<open>randomBytes(length)\<close> returns are the argument \<open>bytes\<close>.
\<close>

definition randomFillSync :: "heap \<Rightarrow> ref \<Rightarrow> nat \<Rightarrow> nat \<Rightarrow> byte list \<Rightarrow> heap" where
  "randomFillSync h target offset len bytes =
     (case Buffer_copy bytes (h target) offset 0 (Some (int len)) of
        Inl e \<Rightarrow> h
      | Inr (t, n) \<Rightarrow> h(target := t))"

section \<open>constants.js\<close>

definition OpcodeContinueFrame :: byte where "OpcodeContinueFrame = 0x0"
definition OpcodeTextFrame :: byte where "OpcodeTextFrame = 0x1"
definition OpcodeBinaryFrame :: byte where "OpcodeBinaryFrame = 0x2"
definition OpcodeConnectionClose :: byte where "OpcodeConnectionClose = 0x8"
definition OpcodePing :: byte where "OpcodePing = 0x9"
definition OpcodePong :: byte where "OpcodePong = 0xA"
definition FinMask :: byte where "FinMask = 0x80"
definition OpcodeMask :: byte where "OpcodeMask = 0x0F"
definition MaskMask :: byte where "MaskMask = 0x80"
definition PayloadLengthMask :: byte where "PayloadLengthMask = 0x7F"

section \<open>sender.js\<close>

text \<open>
  \<open>createFrameBuffer(options)\<close>, with the fields of \<open>options\<close> as arguments. \<open>junk\<close> is
  the content of the freshly allocated \<open>target\<close>, \<open>rnd\<close> the bytes drawn by
  \<open>randomFillSync(mask, 0, 4)\<close>. The result is the new store (the module's \<open>mask\<close> and
  the caller's \<open>data\<close> are written) and the returned frame,
  \<open>Buffer.concat([target, data])\<close>.
\<close>

definition createFrameBuffer ::
  "(nat \<Rightarrow> byte) \<Rightarrow> heap \<Rightarrow> ref \<Rightarrow> byte \<Rightarrow> bool \<Rightarrow> bool \<Rightarrow> byte list
     \<Rightarrow> error + (heap \<times> byte list)" where
  "createFrameBuffer junk h data opcode fin rsv1 rnd =
     (let len = length (h data);
          offset = (if 65536 \<le> len then 14 else if 125 < len then 8 else 6);
          payloadLength = (if 65536 \<le> len then 127 else if 125 < len then 126 else len);
          t0 = Buffer_allocUnsafe junk offset;
          t1 = t0[0 := (if fin then opcode OR 0x80 else opcode)];
          t2 = (if rsv1 then t1[0 := toInt32 (js_index t1 0) OR 0x40] else t1);
          t3 = t2[1 := of_nat payloadLength]
      in case (if payloadLength = 126 then writeUInt16BE t3 len 2
               else if payloadLength = 127 then
                 (case writeUInt32BE t3 0 2 of
                    Inl e \<Rightarrow> Inl e
                  | Inr t \<Rightarrow> writeUInt32BE t len 6)
               else Inr t3) of
           Inl e \<Rightarrow> Inl e
         | Inr t4 \<Rightarrow>
            (let h1 = randomFillSync h MaskBuf 0 4 rnd;
                 t5 = t4[1 := toInt32 (js_index t4 1) OR 0x80];
                 t6 = t5[offset - 4 := toInt32 (js_index (h1 MaskBuf) 0),
                         offset - 3 := toInt32 (js_index (h1 MaskBuf) 1),
                         offset - 2 := toInt32 (js_index (h1 MaskBuf) 2),
                         offset - 1 := toInt32 (js_index (h1 MaskBuf) 3)];
                 h2 = applyMask h1 data MaskBuf data 0 len
             in Inr (h2, t6 @ h2 data)))"

text \<open>
  The \<open>Sender\<close> object holds \<open>firstFragment\<close>. \<open>send\<close> passes the caller's buffer on to
  \<open>createFrameBuffer\<close>; the frame of the result is what \<open>sendFrame\<close> writes to the socket.
  The sender's field is assigned before the frame is built, so it is returned in
  either case.
\<close>

record Sender =
  firstFragment :: bool

definition Sender_send ::
  "(nat \<Rightarrow> byte) \<Rightarrow> Sender \<Rightarrow> heap \<Rightarrow> ref \<Rightarrow> bool \<Rightarrow> bool \<Rightarrow> bool \<Rightarrow> byte list
     \<Rightarrow> Sender \<times> (error + (heap \<times> byte list))" where
  "Sender_send junk this h data binary compress fin rnd =
     (let opcode0 = (if binary then OpcodeBinaryFrame else OpcodeTextFrame);
          opcode = (if firstFragment this then opcode0 else OpcodeContinueFrame);
          rsv1 = (if firstFragment this then compress else False);
          this1 = (if firstFragment this then this\<lparr>firstFragment := False\<rparr> else this);
          this2 = (if fin then this1\<lparr>firstFragment := True\<rparr> else this1)
      in (this2, createFrameBuffer junk h data opcode fin rsv1 rnd))"

text \<open>
  \<open>pong\<close> first copies the caller's data: \<open>Buffer.from(data)\<close> of a Buffer is a new
  Buffer with the same bytes, here at the unused address \<open>fresh\<close>.
\<close>

definition Buffer_from :: "heap \<Rightarrow> ref \<Rightarrow> ref \<Rightarrow> heap" where
  "Buffer_from h data fresh = h(fresh := h data)"

definition Sender_pong ::
  "(nat \<Rightarrow> byte) \<Rightarrow> heap \<Rightarrow> ref \<Rightarrow> ref \<Rightarrow> byte list \<Rightarrow> error + (heap \<times> byte list)" where
  "Sender_pong junk h data fresh rnd =
     createFrameBuffer junk (Buffer_from h data fresh) fresh OpcodePong True False rnd"

section \<open>websocket.js: the state of a WebSocket\<close>

datatype readyState = CONNECTING | OPEN | CLOSING | CLOSED

text \<open>The static getters \<open>WebSocket.CONNECTING\<close> .. \<open>WebSocket.CLOSED\<close>.\<close>

fun readyState_value :: "readyState \<Rightarrow> nat" where
  "readyState_value CONNECTING = 0"
| "readyState_value OPEN = 1"
| "readyState_value CLOSING = 2"
| "readyState_value CLOSED = 3"

fun readyStates :: "readyState \<Rightarrow> string" where
  "readyStates CONNECTING = ''CONNECTING''"
| "readyStates OPEN = ''OPEN''"
| "readyStates CLOSING = ''CLOSING''"
| "readyStates CLOSED = ''CLOSED''"

definition protocolError :: nat where "protocolError = 1002"
definition noStatus :: nat where "noStatus = 1005"
definition abnormal :: nat where "abnormal = 1006"

record WebSocketResponse =
  isFin :: bool
  opcode :: byte
  bytesLeft :: int
  frameCount :: nat
  buffer :: "byte list"

text \<open>
  Functions passed as \<open>cb\<close>: the constant \<open>NOOP\<close> or a function of the application.
  What the completion wrapper of \<open>Sender.sendFrame\<close>, \<open>() => { if (cb) cb() }\<close>, holds as
  \<open>cb\<close>: the closure that \<open>WebSocket.close\<close> builds (it captures \<open>code\<close> and
  \<open>reason\<close>), a function, nothing, or the boolean that \<open>WebSocket.pong\<close> passes in the
  place of \<open>Sender.pong\<close>'s \<open>cb\<close>.
\<close>

datatype callback = NOOP | UserCb nat

datatype write_cb =
    Cb_close "nat option" "jsstr option"
  | Cb_fun callback
  | Cb_bool bool
  | Cb_undefined

text \<open>
  The calls a WebSocket makes on its collaborators (event handlers, the TCP socket, the
  Sender, callbacks of the application) are recorded in the order they happen.
\<close>

datatype msgdata = Text jsstr | Binary "byte list"

datatype effect =
    EmitEvent_error error
  | EmitEvent_error_text jsstr
  | EmitEvent_close nat jsstr
  | EmitEvent_open
  | EmitEvent_message msgdata
  | Emit_ping "byte list"
  | Socket_close
  | Socket_write_handshake
  | Stream_pump
  | Sender_close_call "nat option" "jsstr option"
  | Sender_pong_call "byte list"
  | Sender_send_call "byte list" bool bool bool
  | Call_cb callback "error option"

text \<open>\<open>this.socket\<close> is \<open>null\<close> or \<open>undefined\<close> (\<open>None\<close>), or a TCP socket in some state.\<close>

datatype tcp_state = CONNECTED | NOT_CONNECTED

text \<open>
  A WebSocket is an \<open>EventEmitter\<close> (\<open>class WebSocket extends EventEmiter\<close>). Of the
  listeners that the application registers with \<open>on(name, f)\<close> the model keeps what
  \<open>emit\<close> depends on: \<open>errorListener\<close> tells whether a listener for \<open>'error'\<close> is
  registered.
\<close>

record ws =
  readyState :: readyState
  socket :: "tcp_state option"
  sender :: bool
  closeFrameSent :: bool
  closeFrameReceived :: bool
  responseStack :: "WebSocketResponse list"
  pending :: "write_cb list"
  effects :: "effect list"
  errorListener :: bool

text \<open>
  A method returns a value or throws; in both cases the assignments made so far stay.
\<close>

datatype 'a outcome = Return 'a ws | Throw error ws

fun state_of :: "'a outcome \<Rightarrow> ws" where
  "state_of (Return v s) = s"
| "state_of (Throw e s) = s"


section \<open>websocket.js: closing\<close>

definition record_effect :: "ws \<Rightarrow> effect \<Rightarrow> ws" where
  "record_effect s e = s\<lparr>effects := effects s @ [e]\<rparr>"

text \<open>
  \<open>EventEmitter.emit(name, data)\<close> calls the listeners registered for \<open>name\<close>. The name
  \<open>'error'\<close> is special: with no listener registered for it, \<open>emit\<close> throws, the argument
  itself when that is an Error, otherwise an Error with the message
  \<open>Unhandled error. (...)\<close>.
\<close>

fun unhandled :: "effect \<Rightarrow> error option" where
  "unhandled (EmitEvent_error err) = Some err"
| "unhandled (EmitEvent_error_text msg) = Some (Error (Unhandled msg))"
| "unhandled e = None"

definition emit :: "ws \<Rightarrow> effect \<Rightarrow> unit outcome" where
  "emit s e =
     (case unhandled e of
        None \<Rightarrow> Return () (record_effect s e)
      | Some err \<Rightarrow>
          if errorListener s then Return () (record_effect s e)
          else Throw err (record_effect s e))"

text \<open>
  \<^verbatim>\<open>
  emitEvent(name, data) {
    const callbackPropertyName = `on${name}`;
    if (this[callbackPropertyName]) {
      this[callbackPropertyName](data);
    }
    this.emit(name, data);
  }
  \<close>
  The handler in the property \<open>on<name>\<close> and the listeners belong to the application;
  handing the event to them is one recorded effect. What is left of \<open>emitEvent\<close> is
  what \<open>emit\<close> does.
\<close>

definition emitEvent :: "ws \<Rightarrow> effect \<Rightarrow> unit outcome" where
  "emitEvent s e = emit s e"

text \<open>\<open>emitClose(code = 1006, message = '')\<close>\<close>

definition emitClose :: "ws \<Rightarrow> nat option \<Rightarrow> jsstr option \<Rightarrow> unit outcome" where
  "emitClose s code msg =
     emitEvent (s\<lparr>readyState := CLOSED\<rparr>)
       (EmitEvent_close (case code of None \<Rightarrow> 1006 | Some c \<Rightarrow> c)
                        (case msg of None \<Rightarrow> Lit [] | Some m \<Rightarrow> m))"

text \<open>\<open>this.socket.close()\<close> on an existing socket.\<close>

definition socket_close :: "ws \<Rightarrow> ws" where
  "socket_close s = record_effect (s\<lparr>socket := Some NOT_CONNECTED\<rparr>) Socket_close"

text \<open>
  The closure \<open>closeSocket\<close> of \<open>close(code, reason)\<close>:
  \<^verbatim>\<open>
  const closeSocket = () => {
    this.socket.close();
    this.emitClose(code, reason);
  };
  \<close>
\<close>

definition closeSocket :: "ws \<Rightarrow> nat option \<Rightarrow> jsstr option \<Rightarrow> unit outcome" where
  "closeSocket s code reason =
     (case socket s of
        None \<Rightarrow> Throw (TypeError (Lit ''Cannot read property close of undefined'')) s
      | Some st \<Rightarrow> emitClose (socket_close s) code reason)"

definition abortHandshake :: "ws \<Rightarrow> jsstr \<Rightarrow> unit outcome" where
  "abortHandshake webSocket msg =
     (let s1 = webSocket\<lparr>readyState := CLOSING\<rparr>
      in case socket s1 of
           None \<Rightarrow> Throw (TypeError (Lit ''Cannot read property state of undefined'')) s1
         | Some st \<Rightarrow>
             emitClose (if st = CONNECTED then socket_close s1 else s1)
               (Some abnormal) (Some msg))"

text \<open>
  Of \<open>Sender.close(code, reason, cb)\<close> the WebSocket sees the call and whether it throws:
  \<open>data.writeUInt16BE(code, 0)\<close> does for a code beyond 16 bits.
\<close>

definition Sender_close_throws :: "nat option \<Rightarrow> error option" where
  "Sender_close_throws code =
     (case code of
        None \<Rightarrow> None
      | Some c \<Rightarrow> (case writeUInt16BE [0, 0] c 0 of Inl e \<Rightarrow> Some e | Inr b \<Rightarrow> None))"

definition close :: "ws \<Rightarrow> nat option \<Rightarrow> jsstr option \<Rightarrow> unit outcome" where
  "close s code reason =
     (if readyState s = CLOSED then Return () s
      else if readyState s = CONNECTING then
        abortHandshake s (Lit ''WebSocket was closed before the connection was established'')
      else if readyState s = CLOSING then
        (if closeFrameSent s \<and> closeFrameReceived s then closeSocket s code reason
         else Return () s)
      else
        (let s1 = s\<lparr>readyState := CLOSING\<rparr>
         in if \<not> sender s1
            then Throw (TypeError (Lit ''Cannot read property close of undefined'')) s1
            else case Sender_close_throws code of
                   Some e \<Rightarrow> Throw e s1
                 | None \<Rightarrow>
                     Return () (s1\<lparr>effects := effects s1 @ [Sender_close_call code reason],
                                   pending := pending s1 @ [Cb_close code reason]\<rparr>)))"

text \<open>
  The callback that \<open>close\<close> hands to \<open>sender.close\<close>, run when the write completes:
  \<^verbatim>\<open>
  err => {
    this.closeFrameSent = true;
    if (this.closeFrameReceived) {
      closeSocket();
    }
  }
  \<close>
\<close>

definition close_callback :: "ws \<Rightarrow> nat option \<Rightarrow> jsstr option \<Rightarrow> unit outcome" where
  "close_callback s code reason =
     (let s1 = s\<lparr>closeFrameSent := True\<rparr>
      in if closeFrameReceived s1 then closeSocket s1 code reason else Return () s1)"

text \<open>
  \<^verbatim>\<open>
  disconnectAndEmitError(error, closeCode) {
    this.emitEvent('error', error);
    this.close(closeCode || CloseCode.abnormal, error.message);
  }
  \<close>
  \<open>close\<close> is reached when \<open>emitEvent\<close> returns. In
  \<open>closeCode || CloseCode.abnormal\<close> an absent code and 0 are falsy.
\<close>

definition disconnectAndEmitError :: "ws \<Rightarrow> error \<Rightarrow> nat option \<Rightarrow> unit outcome" where
  "disconnectAndEmitError s err closeCode =
     (case emitEvent s (EmitEvent_error err) of
        Throw e s1 \<Rightarrow> Throw e s1
      | Return u s1 \<Rightarrow>
          close s1
            (Some (case closeCode of None \<Rightarrow> abnormal
                   | Some c \<Rightarrow> if c = 0 then abnormal else c))
            (Some (message err)))"

section \<open>websocket.js: sending\<close>

definition call_cb :: "ws \<Rightarrow> callback \<Rightarrow> error option \<Rightarrow> ws" where
  "call_cb s cb arg = (case cb of NOOP \<Rightarrow> s | UserCb n \<Rightarrow> record_effect s (Call_cb cb arg))"

definition sendAfterClose :: "ws \<Rightarrow> callback option \<Rightarrow> ws" where
  "sendAfterClose s cb =
     (case cb of
        None \<Rightarrow> s
      | Some c \<Rightarrow>
          call_cb s c
            (Some (Error (Lit (''WebSocket is not open: readyState ''
               @ (case readyState s of CONNECTING \<Rightarrow> ''0'' | OPEN \<Rightarrow> ''1''
                  | CLOSING \<Rightarrow> ''2'' | CLOSED \<Rightarrow> ''3'')
               @ '' ('' @ readyStates (readyState s) @ '')'')))))"

text \<open>
  \<open>pong(data, mask, cb)\<close> with \<open>data\<close> a Buffer or absent, \<open>mask\<close> a boolean or absent.
  \<open>this._isServer\<close> is never assigned, so an absent \<open>mask\<close> becomes \<open>true\<close>.
  \<open>Sender.pong(data, cb)\<close> has two parameters: it receives \<open>mask\<close> as its \<open>cb\<close>.
\<close>

definition pong :: "ws \<Rightarrow> byte list option \<Rightarrow> bool option \<Rightarrow> callback option \<Rightarrow> unit outcome" where
  "pong s data msk cb =
     (if readyState s = CONNECTING
      then Throw (Error (Lit ''WebSocket is not open: readyState 0 (CONNECTING)'')) s
      else if readyState s \<noteq> OPEN then Return () (sendAfterClose s cb)
      else if \<not> sender s
      then Throw (TypeError (Lit ''Cannot read property pong of undefined'')) s
      else Return ()
             (s\<lparr>effects := effects s @ [Sender_pong_call (case data of None \<Rightarrow> [] | Some d \<Rightarrow> d)],
                pending := pending s
                  @ [Cb_bool (case msk of None \<Rightarrow> True | Some b \<Rightarrow> b)]\<rparr>))"

text \<open>
  \<open>send(data, options, cb)\<close> with \<open>data\<close> a Buffer; the three options may be absent
  (\<open>binary\<close> then is \<open>typeof data !== 'string'\<close>, \<open>compress\<close> false, \<open>fin\<close> true).
\<close>

definition send ::
  "ws \<Rightarrow> byte list \<Rightarrow> bool option \<Rightarrow> bool option \<Rightarrow> bool option \<Rightarrow> callback option
     \<Rightarrow> unit outcome" where
  "send s data binary compress fin cb =
     (if readyState s = CONNECTING
      then Throw (Error (Lit ''WebSocket is not open: readyState 0 (CONNECTING)'')) s
      else if readyState s \<noteq> OPEN then Return () (sendAfterClose s cb)
      else if \<not> sender s
      then Throw (TypeError (Lit ''Cannot read property send of undefined'')) s
      else Return ()
             (s\<lparr>effects := effects s
                  @ [Sender_send_call data (case binary of None \<Rightarrow> True | Some b \<Rightarrow> b)
                       (case compress of None \<Rightarrow> False | Some b \<Rightarrow> b)
                       (case fin of None \<Rightarrow> True | Some b \<Rightarrow> b)],
                pending := pending s
                  @ [case cb of None \<Rightarrow> Cb_undefined | Some c \<Rightarrow> Cb_fun c]\<rparr>))"

section \<open>websocket.js: receiving\<close>

text \<open>
  The close branch of \<open>processResponse\<close> computes \<open>closeCode\<close> and \<open>closeReason\<close> from
  the payload:
  \<^verbatim>\<open>
  let closeReason = 'connection closed by server';
  let closeCode;
  const data = response.buffer;
  if (data.length === 0) {
    closeCode = CloseCode.noStatus;
  } else if (data.length === 1) {
    throw new RangeError('Invalid payload length 1');
  } else {
    closeCode = data.readUInt16BE(0);
    const buf = data.slice(2);
    closeReason = buf.toString();
  }
  \<close>
\<close>

definition close_payload :: "byte list \<Rightarrow> error + (nat \<times> jsstr)" where
  "close_payload data =
     (if length data = 0 then Inr (noStatus, Lit ''connection closed by server'')
      else if length data = 1 then Inl (RangeError (Lit ''Invalid payload length 1''))
      else Inr (unat (data ! 0) * 256 + unat (data ! 1), Utf8 (drop 2 data)))"

definition pop :: "ws \<Rightarrow> ws" where
  "pop s = s\<lparr>responseStack := butlast (responseStack s)\<rparr>"

text \<open>
  \<open>processResponse(response)\<close>; \<open>response\<close> is the top of the response stack.
  \<open>this.isServer\<close> is \<open>false\<close>, so \<open>pong\<close> is called with \<open>mask = true\<close>.
\<close>

definition processResponse :: "ws \<Rightarrow> WebSocketResponse \<Rightarrow> unit outcome" where
  "processResponse s response =
     (if isFin response \<and> bytesLeft response \<le> 0 then
        (if opcode response = OpcodePing then
           (case pong s (Some (buffer response)) (Some True) (Some NOOP) of
              Throw e s1 \<Rightarrow> Throw e s1
            | Return u s1 \<Rightarrow>
                (case emit s1 (Emit_ping (buffer response)) of
                   Throw e s2 \<Rightarrow> Throw e s2
                 | Return u s2 \<Rightarrow> Return () (pop s2)))
         else if opcode response = OpcodeConnectionClose then
           (case close_payload (buffer response) of
              Inl e \<Rightarrow> Throw e s
            | Inr (closeCode, closeReason) \<Rightarrow>
                (let s1 = s\<lparr>closeFrameReceived := True\<rparr>
                 in case (if closeCode = noStatus then close s1 None None
                          else close s1 (Some closeCode) (Some closeReason)) of
                      Throw e s2 \<Rightarrow> Throw e s2
                    | Return u s2 \<Rightarrow> Return () (pop s2)))
         else if opcode response = OpcodeTextFrame then
           (case emitEvent s (EmitEvent_message (Text (Utf8 (buffer response)))) of
              Throw e s1 \<Rightarrow> Throw e s1
            | Return u s1 \<Rightarrow> Return () (pop s1))
         else if opcode response = OpcodeBinaryFrame then
           (case emitEvent s (EmitEvent_message (Binary (buffer response))) of
              Throw e s1 \<Rightarrow> Throw e s1
            | Return u s1 \<Rightarrow> Return () (pop s1))
         else Return () (pop s))
      else Return () s)"

text \<open>
  The header fields that \<open>processDataFrame(buffer)\<close> reads, under the names of its local
  variables:
  \<^verbatim>\<open>
  const isFin = (FinMask & buffer[0]) !== 0;
  const opcode = OpcodeMask & buffer[0];
  const isMasked = (MaskMask & buffer[1]) !== 0;
  const payloadLength = PayloadLengthMask & buffer[1];
  let payloadDataOffset = 2;
  ...
  let payloadDataLength = payloadLength;
  if (payloadLength === 126) {
    payloadDataLength = buffer[2] << 8 | buffer[3] & 0xffff;
    payloadDataOffset += 2;
  } else if (payloadLength === 127) { throw ... }
  let framePayloadDataLength = payloadDataLength;
  if (framePayloadDataLength > bufferLength) {
    framePayloadDataLength = bufferLength - payloadDataOffset;
  }
  \<close>
\<close>

definition frame_isFin :: "byte list \<Rightarrow> bool" where
  "frame_isFin buf = (FinMask AND toInt32 (js_index buf 0) \<noteq> 0)"

definition frame_opcode :: "byte list \<Rightarrow> byte" where
  "frame_opcode buf = OpcodeMask AND toInt32 (js_index buf 0)"

definition frame_isMasked :: "byte list \<Rightarrow> bool" where
  "frame_isMasked buf = (MaskMask AND toInt32 (js_index buf 1) \<noteq> 0)"

definition frame_payloadLength :: "byte list \<Rightarrow> byte" where
  "frame_payloadLength buf = PayloadLengthMask AND toInt32 (js_index buf 1)"

definition frame_payloadDataLength :: "byte list \<Rightarrow> nat" where
  "frame_payloadDataLength buf =
     (if frame_payloadLength buf = 126
      then push_bit 8 (unat (toInt32 (js_index buf 2)))
             OR (unat (toInt32 (js_index buf 3)) AND 0xffff)
      else unat (frame_payloadLength buf))"

definition frame_payloadDataOffset :: "byte list \<Rightarrow> nat" where
  "frame_payloadDataOffset buf = (if frame_payloadLength buf = 126 then 4 else 2)"

definition frame_framePayloadDataLength :: "byte list \<Rightarrow> int" where
  "frame_framePayloadDataLength buf =
     (if int (length buf) < int (frame_payloadDataLength buf)
      then int (length buf) - int (frame_payloadDataOffset buf)
      else int (frame_payloadDataLength buf))"

text \<open>\<open>new WebSocketResponse()\<close>; its \<open>buffer\<close> is \<open>null\<close> until the first assignment.\<close>

definition new_WebSocketResponse :: WebSocketResponse where
  "new_WebSocketResponse =
     \<lparr>isFin = False, opcode = OpcodeContinueFrame, bytesLeft = 0, frameCount = 0, buffer = []\<rparr>"

text \<open>\<open>responseStack.last\<close> is \<open>null\<close> on an empty stack.\<close>

definition last_response :: "ws \<Rightarrow> WebSocketResponse option" where
  "last_response s = (if responseStack s = [] then None else Some (last (responseStack s)))"

text \<open>
  The part of \<open>processDataFrame\<close> that enters the frame into the response stack:
  \<^verbatim>\<open>
  let isNewResponse = false;
  if (response === null) {
    isNewResponse = true;
    response = new WebSocketResponse();
    response.opcode = opcode;
    response.bytesLeft = payloadDataLength;
    response.buffer = data;
  } else {
    if (opcode === OpcodeContinueFrame) {
      response.bytesLeft = payloadDataLength;
    } else {
      this.disconnectAndEmitError(new Error('A frame after a fragmeneted message must be a continue frame.'));
    }
    response.buffer = Buffer.concat([response.buffer, data]);
  }
  response.bytesLeft -= framePayloadDataLength;
  response.frameCount += 1;
  response.isFin = isFin;
  if (isNewResponse) {
    this.responseStack.push(response);
  }
  \<close>
  The response of a non-empty stack is the object on its top, updated in place.
\<close>

definition finish_response :: "WebSocketResponse \<Rightarrow> byte list \<Rightarrow> WebSocketResponse" where
  "finish_response r buf =
     r\<lparr>bytesLeft := bytesLeft r - frame_framePayloadDataLength buf,
       frameCount := frameCount r + 1,
       isFin := frame_isFin buf\<rparr>"

definition enter_frame :: "ws \<Rightarrow> byte list \<Rightarrow> byte list \<Rightarrow> WebSocketResponse outcome" where
  "enter_frame s buf data =
     (case last_response s of
        None \<Rightarrow>
          (let response = finish_response
                 (new_WebSocketResponse\<lparr>opcode := frame_opcode buf,
                    bytesLeft := int (frame_payloadDataLength buf), buffer := data\<rparr>) buf
           in Return response (s\<lparr>responseStack := responseStack s @ [response]\<rparr>))
      | Some r0 \<Rightarrow>
          (if frame_opcode buf = OpcodeContinueFrame then
             (let response = finish_response
                    (r0\<lparr>bytesLeft := int (frame_payloadDataLength buf),
                        buffer := buffer r0 @ data\<rparr>) buf
              in Return response (s\<lparr>responseStack := butlast (responseStack s) @ [response]\<rparr>))
           else
             (case disconnectAndEmitError s
                     (Error (Lit ''A frame after a fragmeneted message must be a continue frame.''))
                     None of
                Throw e s1 \<Rightarrow> Throw e s1
              | Return u s1 \<Rightarrow>
                  (let response = finish_response (r0\<lparr>buffer := buffer r0 @ data\<rparr>) buf
                   in Return response
                        (s1\<lparr>responseStack := butlast (responseStack s1) @ [response]\<rparr>)))))"

text \<open>
  What \<open>processDataFrame\<close> returns: \<open>undefined\<close> (the value of
  \<open>disconnectAndEmitError\<close>) or the value of \<open>buffer.copy(nextFrame, 0, nextFrameOffset)\<close>,
  which is the number of bytes copied.
\<close>

datatype frame_ret = Ret_undefined | Ret_copied nat

definition processDataFrame :: "ws \<Rightarrow> byte list \<Rightarrow> frame_ret outcome" where
  "processDataFrame s buf =
     (if frame_isMasked buf then
        (case disconnectAndEmitError s (Error (Lit ''Received masked data from server''))
                (Some protocolError) of
           Throw e s1 \<Rightarrow> Throw e s1
         | Return u s1 \<Rightarrow> Return Ret_undefined s1)
      else if (frame_opcode buf = OpcodeConnectionClose \<or> frame_opcode buf = OpcodePing)
              \<and> \<not> frame_isFin buf then
        (case disconnectAndEmitError s (Error (Lit ''Control frames can't be fragmented.''))
                (Some protocolError) of
           Throw e s1 \<Rightarrow> Throw e s1
         | Return u s1 \<Rightarrow> Return Ret_undefined s1)
      else if frame_payloadLength buf = 127 then
        Throw (Error (Lit ''unsupported payload length of 64 bit unsinged int'')) s
      else
        (case Buffer_alloc (int (frame_payloadDataLength buf)) of
           Inl e \<Rightarrow> Throw e s
         | Inr zeros \<Rightarrow>
        (case Buffer_copy buf zeros 0 (int (frame_payloadDataOffset buf))
                (Some (int (frame_payloadDataOffset buf + frame_payloadDataLength buf))) of
           Inl e \<Rightarrow> Throw e s
         | Inr (data, copied) \<Rightarrow>
        (case enter_frame s buf data of
           Throw e s1 \<Rightarrow> Throw e s1
         | Return response s1 \<Rightarrow>
        (case processResponse s1 response of
           Throw e s2 \<Rightarrow> Throw e s2
         | Return u s2 \<Rightarrow>
        (let nextFrameOffset = int (frame_payloadDataOffset buf) + frame_framePayloadDataLength buf;
             nextFrameLength = int (length buf) - nextFrameOffset
         in case Buffer_alloc nextFrameLength of
              Inl e \<Rightarrow> Throw e s2
            | Inr nextFrame \<Rightarrow>
                (case Buffer_copy buf nextFrame 0 nextFrameOffset None of
                   Inl e \<Rightarrow> Throw e s2
                 | Inr (filled, n) \<Rightarrow> Return (Ret_copied n) s2)))))))"

text \<open>
  \<^verbatim>\<open>
  processDataFramesInBuffer(buffer) {
    while (buffer.length >= 2) {
      buffer = this.processDataFrame(buffer);
    }
    if (buffer.length > 0) {
      throw new Error('Fragmented data in buffer which cannot be processed');
    }
  }
  \<close>
  After the first iteration \<open>buffer\<close> holds what \<open>processDataFrame\<close> returned. Reading
  \<open>length\<close> of \<open>undefined\<close> throws a TypeError; \<open>length\<close> of a number is \<open>undefined\<close>, and
  both comparisons of \<open>undefined\<close> with a number are false.
\<close>

datatype jsval = JBuffer "byte list" | JNumber nat | JUndefined

fun ret_val :: "frame_ret \<Rightarrow> jsval" where
  "ret_val Ret_undefined = JUndefined"
| "ret_val (Ret_copied n) = JNumber n"

fun loop_weight :: "jsval \<Rightarrow> nat" where
  "loop_weight (JBuffer b) = 1"
| "loop_weight (JNumber n) = 0"
| "loop_weight JUndefined = 0"

function processDataFramesInBuffer :: "ws \<Rightarrow> jsval \<Rightarrow> unit outcome" where
  "processDataFramesInBuffer s JUndefined =
     Throw (TypeError (Lit ''Cannot read property length of undefined'')) s"
| "processDataFramesInBuffer s (JNumber n) = Return () s"
| "processDataFramesInBuffer s (JBuffer b) =
     (if 2 \<le> length b then
        (case processDataFrame s b of
           Throw e s1 \<Rightarrow> Throw e s1
         | Return r s1 \<Rightarrow> processDataFramesInBuffer s1 (ret_val r))
      else if 0 < length b then
        Throw (Error (Lit ''Fragmented data in buffer which cannot be processed'')) s
      else Return () s)"
  by pat_completeness auto
termination
proof (relation "measure (\<lambda>(s, v). loop_weight v)")
  show "wf (measure (\<lambda>(s, v). loop_weight v))" by simp
next
  fix s :: ws and b :: "byte list" and r :: frame_ret and s1 :: ws
  show "((s1, ret_val r), (s, JBuffer b)) \<in> measure (\<lambda>(s, v). loop_weight v)"
    by (cases r) simp_all
qed

text \<open>
  \<open>processHandshake(buffer)\<close>. \<open>response.indexOf('HTTP/1.1 101') === -1\<close> searches the
  twelve ASCII bytes of the literal. The comparison of the \<open>Sec-WebSocket-Accept\<close>
  header with the SHA-1 hash of the key (\<open>Ti.Utils.sha1\<close>) is the parameter
  \<open>acceptOk\<close>.
\<close>

fun starts_with :: "byte list \<Rightarrow> byte list \<Rightarrow> bool" where
  "starts_with xs [] = True"
| "starts_with [] (p # ps) = False"
| "starts_with (x # xs) (p # ps) = (x = p \<and> starts_with xs ps)"

fun contains :: "byte list \<Rightarrow> byte list \<Rightarrow> bool" where
  "contains [] p = (p = [])"
| "contains (x # xs) p = (starts_with (x # xs) p \<or> contains xs p)"

definition status_101 :: "byte list" where
  "status_101 = [0x48, 0x54, 0x54, 0x50, 0x2F, 0x31, 0x2E, 0x31, 0x20, 0x31, 0x30, 0x31]"

definition processHandshake :: "(byte list \<Rightarrow> bool) \<Rightarrow> ws \<Rightarrow> byte list \<Rightarrow> unit outcome" where
  "processHandshake acceptOk s buf =
     (if \<not> contains buf status_101 then
        abortHandshake s (Lit ''Invalid HTTP status code received during WebSocket hanshake.'')
      else if \<not> acceptOk buf then
        abortHandshake s (Lit ''Invalid Sec-WebSocket-Accept header'')
      else emitEvent (s\<lparr>readyState := OPEN\<rparr>) EmitEvent_open)"

definition socketOnClose :: "ws \<Rightarrow> unit outcome" where
  "socketOnClose s = emitClose (s\<lparr>readyState := CLOSING, socket := None\<rparr>) None None"

text \<open>\<open>processInputStream(e)\<close> with \<open>e.bytesProcessed\<close> and \<open>e.buffer\<close>.\<close>

definition processInputStream ::
  "(byte list \<Rightarrow> bool) \<Rightarrow> ws \<Rightarrow> int \<Rightarrow> byte list option \<Rightarrow> unit outcome" where
  "processInputStream acceptOk s bytesProcessed buf =
     (if bytesProcessed = - 1 then
        (if readyState s = CLOSED then Return () s else socketOnClose s)
      else case buf of
             None \<Rightarrow> Throw (Error (Lit ''No buffer to process in socket pump callback'')) s
           | Some b \<Rightarrow>
               if readyState s = CONNECTING then processHandshake acceptOk s b
               else processDataFramesInBuffer s (JBuffer b))"

section \<open>websocket.js: the socket's callbacks and the steps of a connection\<close>

text \<open>
  The \<open>connected\<close> callback of the socket creates the Sender, writes the upgrade request
  (\<open>performWsHandshake\<close>, with the callback \<open>() => {}\<close>) and starts the pump; the \<open>error\<close>
  callback sets \<open>readyState\<close> to \<open>CLOSED\<close> and emits the error, \<open>e.error\<close> being a
  string.
\<close>

definition socket_connected :: "ws \<Rightarrow> unit outcome" where
  "socket_connected s =
     (let s1 = s\<lparr>sender := True\<rparr>
      in case socket s1 of
           None \<Rightarrow> Throw (TypeError (Lit ''Cannot read property write of undefined'')) s1
         | Some st \<Rightarrow>
             Return () (record_effect
               (s1\<lparr>socket := Some CONNECTED,
                   effects := effects s1 @ [Socket_write_handshake],
                   pending := pending s1 @ [Cb_fun NOOP]\<rparr>) Stream_pump))"

definition socket_error :: "ws \<Rightarrow> jsstr \<Rightarrow> unit outcome" where
  "socket_error s msg = emitEvent (s\<lparr>readyState := CLOSED\<rparr>) (EmitEvent_error_text msg)"

text \<open>
  The socket reports a write as complete by calling its callback; \<open>i\<close> is the position of
  that write among the pending ones.
\<close>

definition write_completed :: "ws \<Rightarrow> nat \<Rightarrow> unit outcome" where
  "write_completed s i =
     (if i < length (pending s) then
        (let s1 = s\<lparr>pending := take i (pending s) @ drop (Suc i) (pending s)\<rparr>
         in case pending s ! i of
              Cb_close code reason \<Rightarrow> close_callback s1 code reason
            | Cb_fun f \<Rightarrow> Return () (call_cb s1 f None)
            | Cb_bool b \<Rightarrow>
                if b then Throw (TypeError (Lit ''cb is not a function'')) s1 else Return () s1
            | Cb_undefined \<Rightarrow> Return () s1)
      else Return () s)"

text \<open>
  What happens to a connection: the application calls \<open>close\<close>, \<open>send\<close> or \<open>pong\<close>, the
  socket or the pump calls back, a write completes, or the application registers a
  listener for \<open>'error'\<close> (\<open>on('error', f)\<close>, \<open>Listen_error True\<close>) or removes those it has
  (\<open>removeAllListeners('error')\<close>, \<open>Listen_error False\<close>), both methods of the
  \<open>EventEmitter\<close>.
\<close>

datatype event =
    Call_close "nat option" "jsstr option"
  | Call_send "byte list" "bool option" "bool option" "bool option" "callback option"
  | Call_pong "byte list option" "bool option" "callback option"
  | Socket_connected
  | Socket_error jsstr
  | Pump_callback int "byte list option"
  | Write_completed nat
  | Listen_error bool

fun step :: "(byte list \<Rightarrow> bool) \<Rightarrow> ws \<Rightarrow> event \<Rightarrow> unit outcome" where
  "step acceptOk s (Call_close code reason) = close s code reason"
| "step acceptOk s (Call_send data binary compress fin cb) = send s data binary compress fin cb"
| "step acceptOk s (Call_pong data msk cb) = pong s data msk cb"
| "step acceptOk s Socket_connected = socket_connected s"
| "step acceptOk s (Socket_error msg) = socket_error s msg"
| "step acceptOk s (Pump_callback bytesProcessed buf) =
     processInputStream acceptOk s bytesProcessed buf"
| "step acceptOk s (Write_completed i) = write_completed s i"
| "step acceptOk s (Listen_error b) = Return () (s\<lparr>errorListener := b\<rparr>)"

text \<open>A connection lives on after a method has thrown: the next step starts from the state left.\<close>

fun run :: "(byte list \<Rightarrow> bool) \<Rightarrow> ws \<Rightarrow> event list \<Rightarrow> ws" where
  "run acceptOk s [] = s"
| "run acceptOk s (ev # evs) = run acceptOk (state_of (step acceptOk s ev)) evs"

section \<open>Notions used in the statements\<close>

text \<open>
  A buffer starts with a complete frame when the bytes of the header and of the payload
  it announces are all there (and the length is not of the 64-bit kind); \<open>frame_payload\<close>
  are the payload bytes of that frame.
\<close>

definition frame_complete :: "byte list \<Rightarrow> bool" where
  "frame_complete buf =
     (frame_payloadLength buf \<noteq> 127
      \<and> frame_payloadDataOffset buf + frame_payloadDataLength buf \<le> length buf)"

definition frame_payload :: "byte list \<Rightarrow> byte list" where
  "frame_payload buf = take (frame_payloadDataLength buf) (drop (frame_payloadDataOffset buf) buf)"

text \<open>The messages and pings handed to the application so far.\<close>

fun is_dispatch :: "effect \<Rightarrow> bool" where
  "is_dispatch (EmitEvent_message d) = True"
| "is_dispatch (Emit_ping d) = True"
| "is_dispatch e = False"

definition dispatched :: "ws \<Rightarrow> effect list" where
  "dispatched s = filter is_dispatch (effects s)"

definition masked_error :: error where
  "masked_error = Error (Lit ''Received masked data from server'')"


text \<open>\<open>readyState\<close> has not moved backward from \<open>s\<close> to \<open>s'\<close>.\<close>

definition advanced :: "ws \<Rightarrow> ws \<Rightarrow> bool" where
  "advanced s s' = (readyState_value (readyState s) \<le> readyState_value (readyState s'))"

text \<open>
  The close handshake path is the closure \<open>closeSocket\<close>: it calls \<open>socket.close()\<close> and
  then emits "close". After the handshake has been left behind (\<open>readyState\<close> is not
  \<open>CONNECTING\<close>) nothing else calls \<open>socket.close()\<close>, so \<open>torn_down\<close> tells that the path
  has run. The transport is lost, outside of that path, when the pump reports
  \<open>bytesProcessed = -1\<close> or the socket reports an error.
\<close>

fun is_close_cb :: "write_cb \<Rightarrow> bool" where
  "is_close_cb (Cb_close code reason) = True"
| "is_close_cb cb = False"

fun is_close_event :: "effect \<Rightarrow> bool" where
  "is_close_event (EmitEvent_close code msg) = True"
| "is_close_event e = False"

definition torn_down :: "ws \<Rightarrow> bool" where
  "torn_down s = (Socket_close \<in> set (effects s))"

definition close_emitted :: "ws \<Rightarrow> bool" where
  "close_emitted s = list_ex is_close_event (effects s)"

fun transport_lost :: "event \<Rightarrow> bool" where
  "transport_lost (Pump_callback bytesProcessed buf) = (bytesProcessed = - 1)"
| "transport_lost (Socket_error msg) = True"
| "transport_lost ev = False"

text \<open>A connection right after the handshake: open, and no closing business so far.\<close>

definition opened :: "ws \<Rightarrow> bool" where
  "opened s = (readyState s = OPEN \<and> socket s \<noteq> None
     \<and> \<not> closeFrameSent s \<and> \<not> closeFrameReceived s
     \<and> \<not> list_ex is_close_cb (pending s) \<and> \<not> torn_down s \<and> \<not> close_emitted s)"

text \<open>
  The invariant of a connection that does not lose its transport, and the weaker one
  that holds in any case.
\<close>

definition handshake_inv :: "ws \<Rightarrow> bool" where
  "handshake_inv s =
     (socket s \<noteq> None \<and> readyState s \<noteq> CONNECTING
      \<and> (torn_down s \<longleftrightarrow> closeFrameSent s \<and> closeFrameReceived s)
      \<and> (torn_down s \<longleftrightarrow> readyState s = CLOSED)
      \<and> (close_emitted s \<longleftrightarrow> torn_down s)
      \<and> (readyState s = OPEN \<longrightarrow> \<not> closeFrameSent s \<and> \<not> closeFrameReceived s)
      \<and> (readyState s = OPEN \<or> closeFrameSent s \<longrightarrow> filter is_close_cb (pending s) = [])
      \<and> length (filter is_close_cb (pending s)) \<le> 1)"

definition teardown_guarded :: "ws \<Rightarrow> bool" where
  "teardown_guarded s =
     (readyState s \<noteq> CONNECTING
      \<and> (torn_down s \<longrightarrow> closeFrameSent s \<and> closeFrameReceived s))"

text \<open>
  A property of connections is stable under frame processing when the primitive updates
  of \<open>processDataFrame\<close> keep it: changes of the response stack, events and Sender calls
  other than closing ones, and \<open>close\<close>, also right after \<open>closeFrameReceived\<close> is set.
\<close>

definition frame_stable :: "(ws \<Rightarrow> bool) \<Rightarrow> bool" where
  "frame_stable P =
     ((\<forall>s r. P s \<longrightarrow> P (s\<lparr>responseStack := r\<rparr>))
    \<and> (\<forall>s e. P s \<longrightarrow> e \<noteq> Socket_close \<longrightarrow> \<not> is_close_event e \<longrightarrow> P (record_effect s e))
    \<and> (\<forall>s e cb. P s \<longrightarrow> e \<noteq> Socket_close \<longrightarrow> \<not> is_close_event e \<longrightarrow> \<not> is_close_cb cb \<longrightarrow>
          P (s\<lparr>effects := effects s @ [e], pending := pending s @ [cb]\<rparr>))
    \<and> (\<forall>s code reason. P s \<longrightarrow> P (state_of (close s code reason)))
    \<and> (\<forall>s code reason. P s \<longrightarrow>
          P (state_of (close (s\<lparr>closeFrameReceived := True\<rparr>) code reason))))"

text \<open>
  The wire format of an outbound frame as the specification gives it: the first byte
  (FIN, RSV1, opcode), the length bytes with the MASK bit set, and the payload XORed with
  the key, byte \<open>i\<close> with key byte \<open>i mod 4\<close>.
\<close>

definition masked_bytes :: "byte list \<Rightarrow> byte list \<Rightarrow> byte list" where
  "masked_bytes payload key = map (\<lambda>i. payload ! i XOR key ! (i mod 4)) [0..<length payload]"

definition frame_byte0 :: "byte \<Rightarrow> bool \<Rightarrow> bool \<Rightarrow> byte" where
  "frame_byte0 opc fin rsv1 =
     (if rsv1 then (if fin then opc OR 0x80 else opc) OR 0x40
      else if fin then opc OR 0x80 else opc)"

definition frame_length_bytes :: "nat \<Rightarrow> byte list" where
  "frame_length_bytes len =
     (if len \<le> 125 then [of_nat len OR 0x80]
      else if len \<le> 65535 then [0xFE, of_nat (len div 256), of_nat len]
      else [0xFF, 0, 0, 0, 0, of_nat (len div 16777216), of_nat (len div 65536),
            of_nat (len div 256), of_nat len])"

section \<open>Concrete states and stores\<close>

text \<open>
  A WebSocket as its constructor leaves it; one after a successful handshake that has
  received and sent nothing yet, with the listeners of the README's usage example
  (\<open>'open'\<close> and \<open>'message'\<close>, none for \<open>'error'\<close>); the same with a listener for
  \<open>'error'\<close>; one whose application has called \<open>close(1000)\<close> and whose close frame has
  been written, waiting for the server's close frame; and a store with a five-byte caller
  buffer and the four-byte \<open>mask\<close> buffer.
\<close>

definition ws_new :: ws where
  "ws_new = \<lparr>readyState = CONNECTING, socket = Some NOT_CONNECTED, sender = False,
     closeFrameSent = False, closeFrameReceived = False, responseStack = [], pending = [],
     effects = [], errorListener = False\<rparr>"

definition ws_open :: ws where
  "ws_open = \<lparr>readyState = OPEN, socket = Some CONNECTED, sender = True,
     closeFrameSent = False, closeFrameReceived = False, responseStack = [], pending = [],
     effects = [], errorListener = False\<rparr>"

definition ws_listening :: ws where
  "ws_listening = ws_open\<lparr>errorListener := True\<rparr>"


definition heap_keyed :: heap where
  "heap_keyed = (\<lambda>r. [])(Buf 0 := [0x61, 0x62, 0x63, 0x64, 0x65], MaskBuf := [1, 2, 3, 4])"

section \<open>The masking utility\<close>

lemma and_3_eq_mod_4: "(i::nat) AND 3 = i mod 4"
proof -
  have "i AND mask 2 = i mod 2 ^ 2"
    by (simp only: take_bit_eq_mask [symmetric] take_bit_eq_mod)
  moreover have "mask 2 = (3::nat)" by (simp add: mask_eq_exp_minus_1)
  ultimately show ?thesis by simp
qed

lemma applyMask_Suc:
  "applyMask h s m out off (Suc n) = applyMask_step s m out off n (applyMask h s m out off n)"
  by (simp add: applyMask_def)

lemma applyMask_other: "x \<noteq> out \<Longrightarrow> applyMask h s m out off n x = h x"
  by (induction n) (simp_all add: applyMask_Suc applyMask_def applyMask_step_def)

lemma applyMask_length: "length (applyMask h s m out off n x) = length (h x)"
proof (induction n)
  case 0
  then show ?case by (simp add: applyMask_def)
next
  case (Suc n)
  then show ?case by (cases "x = out") (simp_all add: applyMask_Suc applyMask_step_def)
qed

lemma applyMask_inplace_nth:
  assumes "r \<noteq> m" and "i < length (h r)"
  shows "applyMask h r m r 0 n r ! i =
           (if i < n then h r ! i XOR toInt32 (js_index (h m) (i mod 4)) else h r ! i)"
  using assms
proof (induction n)
  case 0
  then show ?case by (simp add: applyMask_def)
next
  case (Suc n)
  let ?g = "applyMask h r m r 0 n"
  have len: "length (?g r) = length (h r)" by (rule applyMask_length)
  have key: "?g m = h m" using Suc.prems(1) by (simp add: applyMask_other)
  show ?case
  proof (cases "i = n")
    case True
    with Suc len key show ?thesis
      by (simp add: applyMask_Suc applyMask_step_def js_index_def toInt32_def and_3_eq_mod_4)
  next
    case False
    with Suc len key show ?thesis
      by (simp add: applyMask_Suc applyMask_step_def)
  qed
qed

text \<open>
  C5. Masking in place with a 4-byte key XORs byte \<open>i\<close> with key byte \<open>i mod 4\<close>, and
  masking twice with the same key restores every buffer of the store.
\<close>

theorem applyMask_self_inverse:
  assumes "r \<noteq> m" and "length (h m) = 4"
  shows "length (applyMask h r m r 0 (length (h r)) r) = length (h r)
       \<and> (\<forall>i < length (h r).
            applyMask h r m r 0 (length (h r)) r ! i = h r ! i XOR h m ! (i mod 4))
       \<and> applyMask (applyMask h r m r 0 (length (h r))) r m r 0 (length (h r)) = h"
proof -
  let ?n = "length (h r)"
  let ?h1 = "applyMask h r m r 0 ?n"
  let ?h2 = "applyMask ?h1 r m r 0 ?n"
  have l1: "length (?h1 r) = ?n" by (rule applyMask_length)
  have k1: "?h1 m = h m" using assms(1) by (simp add: applyMask_other)
  have n1: "?h1 r ! i = h r ! i XOR h m ! (i mod 4)" if "i < ?n" for i
    using applyMask_inplace_nth [where h = h and n = ?n, OF assms(1) that] that assms(2)
    by (simp add: js_index_def toInt32_def)
  have n2: "?h2 r ! i = h r ! i" if "i < ?n" for i
  proof -
    have "i < length (?h1 r)" using that l1 by simp
    from applyMask_inplace_nth [where h = ?h1 and n = ?n, OF assms(1) this]
    have "?h2 r ! i = ?h1 r ! i XOR h m ! (i mod 4)"
      using that l1 k1 assms(2) by (simp add: js_index_def toInt32_def)
    with n1 [OF that] show ?thesis by (simp add: xor.assoc)
  qed
  have "?h2 x = h x" for x
  proof (cases "x = r")
    case True
    have "length (?h2 r) = ?n" using l1 by (simp add: applyMask_length)
    with n2 have "?h2 r = h r" by (intro nth_equalityI) simp_all
    with True show ?thesis by simp
  next
    case False
    then show ?thesis by (simp add: applyMask_other)
  qed
  then have "?h2 = h" by (rule ext)
  with l1 n1 show ?thesis by blast
qed

theorem applyMask_self_inverse_witness:
  "Buf 0 \<noteq> MaskBuf \<and> length (heap_keyed MaskBuf) = 4
   \<and> applyMask (applyMask heap_keyed (Buf 0) MaskBuf (Buf 0) 0 5) (Buf 0) MaskBuf (Buf 0) 0 5
       = heap_keyed"
proof -
  have a: "Buf 0 \<noteq> MaskBuf" by simp
  have b: "length (heap_keyed MaskBuf) = 4" by (simp add: heap_keyed_def)
  have c: "length (heap_keyed (Buf 0)) = 5" by (simp add: heap_keyed_def)
  from applyMask_self_inverse [where r = "Buf 0" and m = MaskBuf and h = heap_keyed, OF a b] c
  show ?thesis using a b by simp
qed

section \<open>Reading the extended payload length\<close>

text \<open>
  C10, as the code has it. On a buffer of 2 or 3 bytes whose length field is 126, and
  that passes the two checks made before the length is looked at (the MASK bit is clear,
  the frame is not a fragmented control frame), \<open>processDataFrame\<close> reads \<open>buffer[2]\<close>
  and \<open>buffer[3]\<close> with no check of the buffer's length: index 3 (and index 2 of a
  2-byte buffer) lies outside the buffer, the read yields \<open>undefined\<close>, which the bitwise
  operators take as 0, and the payload is taken to start at offset 4, beyond the end of
  the buffer. Decoding goes on with these values, whatever the state of the connection,
  up to the copy of the payload from offset 4, and it is \<open>Buffer.copy\<close> that refuses the
  offset.
\<close>

theorem extended_length_read_unguarded:
  assumes "length buf = 2 \<or> length buf = 3" and "frame_payloadLength buf = 126"
    and "\<not> frame_isMasked buf"
    and "\<not> ((frame_opcode buf = OpcodeConnectionClose \<or> frame_opcode buf = OpcodePing)
              \<and> \<not> frame_isFin buf)"
  shows "js_index buf 3 = None
       \<and> (length buf = 2 \<longrightarrow> js_index buf 2 = None)
       \<and> frame_payloadDataLength buf
           = (if length buf = 3 then 256 * unat (buf ! 2) else 0)
       \<and> length buf < frame_payloadDataOffset buf
       \<and> processDataFrame s buf =
           Throw (RangeError (Lit ''The value of sourceStart is out of range'')) s"
proof -
  have idx: "js_index buf 3 = None \<and> (length buf = 2 \<longrightarrow> js_index buf 2 = None)"
    using assms(1) by (auto simp: js_index_def)
  have len: "frame_payloadDataLength buf = (if length buf = 3 then 256 * unat (buf ! 2) else 0)"
    using assms(1,2)
    by (auto simp: js_index_def toInt32_def frame_payloadDataLength_def push_bit_eq_mult)
  have off: "frame_payloadDataOffset buf = 4"
    using assms(2) by (simp add: frame_payloadDataOffset_def)
  have n127: "frame_payloadLength buf \<noteq> 127" using assms(2) by simp
  have "processDataFrame s buf =
          Throw (RangeError (Lit ''The value of sourceStart is out of range'')) s"
    using assms(1,3,4) n127
    by (auto simp: processDataFrame_def off Buffer_alloc_def Buffer_copy_def)
  with idx len off assms(1) show ?thesis by auto
qed

theorem extended_length_read_unguarded_witness:
  "(length [0x81, 0x7E, 0x01 :: byte] = 2 \<or> length [0x81, 0x7E, 0x01 :: byte] = 3)
   \<and> frame_payloadLength [0x81, 0x7E, 0x01] = 126
   \<and> \<not> frame_isMasked [0x81, 0x7E, 0x01]
   \<and> js_index [0x81, 0x7E, 0x01 :: byte] 3 = None
   \<and> frame_payloadDataLength [0x81, 0x7E, 0x01] = 256
   \<and> processDataFrame ws_open [0x81, 0x7E, 0x01] =
       Throw (RangeError (Lit ''The value of sourceStart is out of range'')) ws_open"
proof -
  have a: "length [0x81, 0x7E, 0x01 :: byte] = 2 \<or> length [0x81, 0x7E, 0x01 :: byte] = 3"
    by simp
  have b: "frame_payloadLength [0x81, 0x7E, 0x01] = 126"
    by (simp add: frame_payloadLength_def PayloadLengthMask_def js_index_def toInt32_def)
  have c: "\<not> frame_isMasked [0x81, 0x7E, 0x01]"
    by (simp add: frame_isMasked_def MaskMask_def js_index_def toInt32_def)
  have d: "\<not> ((frame_opcode [0x81, 0x7E, 0x01] = OpcodeConnectionClose
                \<or> frame_opcode [0x81, 0x7E, 0x01] = OpcodePing)
              \<and> \<not> frame_isFin [0x81, 0x7E, 0x01])"
    by (simp add: frame_isFin_def FinMask_def js_index_def toInt32_def)
  from extended_length_read_unguarded [OF a b c d, of ws_open] show ?thesis
    using b c by simp
qed

text \<open>
  The claim as stated fails: it speaks of every buffer of 2 or 3 bytes whose length field
  is 126. A masked one and a fragmented control frame are turned away by the two earlier
  checks, with the error of that check, and the length bytes are not looked at.
\<close>

theorem extended_length_not_reached:
  "length [0x81, 0xFE :: byte] = 2 \<and> frame_payloadLength [0x81, 0xFE] = 126
   \<and> processDataFrame ws_open [0x81, 0xFE] =
       Throw masked_error (ws_open\<lparr>effects := [EmitEvent_error masked_error]\<rparr>)
   \<and> length [0x09, 0x7E :: byte] = 2 \<and> frame_payloadLength [0x09, 0x7E] = 126
   \<and> processDataFrame ws_open [0x09, 0x7E] =
       Throw (Error (Lit ''Control frames can't be fragmented.''))
         (ws_open\<lparr>effects :=
            [EmitEvent_error (Error (Lit ''Control frames can't be fragmented.''))]\<rparr>)"
  by (simp add: ws_open_def masked_error_def processDataFrame_def disconnectAndEmitError_def
      emitEvent_def emit_def record_effect_def frame_isMasked_def frame_payloadLength_def
      frame_opcode_def frame_isFin_def MaskMask_def PayloadLengthMask_def OpcodeMask_def
      FinMask_def OpcodeConnectionClose_def OpcodePing_def js_index_def toInt32_def)

section \<open>Decoding a complete frame\<close>

lemma Buffer_alloc_nat: "Buffer_alloc (int n) = Inr (replicate n 0)"
  by (simp add: Buffer_alloc_def)

lemma Buffer_copy_payload:
  assumes "off + len \<le> length buf"
  shows "Buffer_copy buf (replicate len 0) 0 (int off) (Some (int (off + len)))
           = Inr (take len (drop off buf), len)"
proof -
  have "nat (int off + int len) = off + len" by simp
  with assms show ?thesis by (simp add: Buffer_copy_def Let_def min_def)
qed

lemma Buffer_copy_rest:
  assumes "k \<le> length buf"
  shows "Buffer_copy buf (replicate (length buf - k) 0) 0 (int k) None
           = Inr (drop k buf, length buf - k)"
  using assms by (simp add: Buffer_copy_def Let_def)

lemma framePayloadDataLength_complete:
  "frame_complete buf \<Longrightarrow> frame_framePayloadDataLength buf = int (frame_payloadDataLength buf)"
  by (simp add: frame_complete_def frame_framePayloadDataLength_def)

lemma processDataFrame_complete:
  assumes "\<not> frame_isMasked buf"
    and "\<not> ((frame_opcode buf = OpcodeConnectionClose \<or> frame_opcode buf = OpcodePing)
              \<and> \<not> frame_isFin buf)"
    and "frame_complete buf"
  shows "processDataFrame s buf =
     (case enter_frame s buf (frame_payload buf) of
        Throw e s1 \<Rightarrow> Throw e s1
      | Return response s1 \<Rightarrow>
          (case processResponse s1 response of
             Throw e s2 \<Rightarrow> Throw e s2
           | Return u s2 \<Rightarrow>
               Return (Ret_copied (length buf
                  - (frame_payloadDataOffset buf + frame_payloadDataLength buf))) s2))"
proof -
  let ?off = "frame_payloadDataOffset buf" and ?len = "frame_payloadDataLength buf"
  have le: "?off + ?len \<le> length buf" and n127: "frame_payloadLength buf \<noteq> 127"
    using assms(3) by (simp_all add: frame_complete_def)
  have nfo: "int ?off + frame_framePayloadDataLength buf = int (?off + ?len)"
    using framePayloadDataLength_complete [OF assms(3)] by simp
  have nfl: "int (length buf) - int (?off + ?len) = int (length buf - (?off + ?len))"
    using le by simp
  show ?thesis
    using assms(1,2) n127
    by (simp only: processDataFrame_def Let_def nfo nfl Buffer_alloc_nat
        Buffer_copy_payload [OF le] Buffer_copy_rest [OF le] frame_payload_def
        if_False sum.case prod.case split: outcome.split)
qed

lemma last_response_empty: "responseStack s = [] \<Longrightarrow> last_response s = None"
  by (simp add: last_response_def)

lemma enter_frame_empty:
  assumes "responseStack s = []" and "frame_complete buf"
  shows "enter_frame s buf data =
     Return \<lparr>isFin = frame_isFin buf, opcode = frame_opcode buf, bytesLeft = 0, frameCount = 1,
              buffer = data\<rparr>
       (s\<lparr>responseStack := [\<lparr>isFin = frame_isFin buf, opcode = frame_opcode buf, bytesLeft = 0,
              frameCount = 1, buffer = data\<rparr>]\<rparr>)"
  using assms
  by (simp add: enter_frame_def last_response_empty finish_response_def
      new_WebSocketResponse_def framePayloadDataLength_complete Let_def)


lemma frame_complete_length: "frame_complete buf \<Longrightarrow> 2 \<le> length buf"
  by (auto simp: frame_complete_def frame_payloadDataOffset_def split: if_splits)

text \<open>The definitions that evaluate a concrete frame and a concrete run of steps.\<close>

lemmas emit_defs = emitEvent_def emit_def record_effect_def

lemmas frame_defs =
  frame_isFin_def frame_opcode_def frame_isMasked_def frame_payloadLength_def
  frame_payloadDataLength_def frame_payloadDataOffset_def frame_framePayloadDataLength_def
  js_index_def toInt32_def FinMask_def OpcodeMask_def MaskMask_def PayloadLengthMask_def
  OpcodeContinueFrame_def OpcodeTextFrame_def OpcodeBinaryFrame_def OpcodeConnectionClose_def
  OpcodePing_def OpcodePong_def

lemmas run_defs =
  frame_defs processInputStream_def processDataFrame_def enter_frame_def processResponse_def
  close_payload_def close_def close_callback_def closeSocket_def emitClose_def socket_close_def
  emit_defs write_completed_def pop_def last_response_def finish_response_def
  new_WebSocketResponse_def Buffer_alloc_def Buffer_copy_def Sender_close_throws_def
  writeUInt16BE_def noStatus_def Let_def


section \<open>A continuation frame with no message in progress\<close>

text \<open>
  C6, as the code has it. An unmasked, complete continuation frame that arrives while no
  message is in progress raises no error: \<open>processDataFrame\<close> returns normally, emits
  nothing, and opens a response whose opcode is the continuation opcode. With FIN set the
  response is complete at once and is dropped silently; without FIN it stays on the
  stack.
\<close>

theorem continuation_without_initial_frame:
  assumes "responseStack s = []" and "frame_opcode buf = OpcodeContinueFrame"
    and "\<not> frame_isMasked buf" and "frame_complete buf"
  shows "processDataFrame s buf =
     Return (Ret_copied (length buf - (frame_payloadDataOffset buf + frame_payloadDataLength buf)))
       (s\<lparr>responseStack :=
            (if frame_isFin buf then []
             else [\<lparr>isFin = False, opcode = OpcodeContinueFrame, bytesLeft = 0, frameCount = 1,
                     buffer = frame_payload buf\<rparr>])\<rparr>)"
proof -
  have ctl: "\<not> ((frame_opcode buf = OpcodeConnectionClose \<or> frame_opcode buf = OpcodePing)
              \<and> \<not> frame_isFin buf)"
    using assms(2) by (simp add: OpcodeContinueFrame_def OpcodeConnectionClose_def OpcodePing_def)
  show ?thesis
    using assms(1,2)
    by (simp add: processDataFrame_complete [OF assms(3) ctl assms(4)]
        enter_frame_empty [OF assms(1,4)] processResponse_def pop_def
        OpcodeContinueFrame_def OpcodeConnectionClose_def OpcodePing_def OpcodeTextFrame_def
        OpcodeBinaryFrame_def)
qed

theorem continuation_without_initial_frame_witness:
  "responseStack ws_open = [] \<and> frame_opcode [0x80, 0x00] = OpcodeContinueFrame
   \<and> \<not> frame_isMasked [0x80, 0x00] \<and> frame_complete [0x80, 0x00]
   \<and> processDataFrame ws_open [0x80, 0x00] =
       Return (Ret_copied (length [0x80, 0x00 :: byte]
                 - (frame_payloadDataOffset [0x80, 0x00] + frame_payloadDataLength [0x80, 0x00])))
         (ws_open\<lparr>responseStack :=
            (if frame_isFin [0x80, 0x00] then []
             else [\<lparr>isFin = False, opcode = OpcodeContinueFrame, bytesLeft = 0, frameCount = 1,
                     buffer = frame_payload [0x80, 0x00]\<rparr>])\<rparr>)"
proof -
  have a: "responseStack ws_open = []" by (simp add: ws_open_def)
  have b: "frame_opcode [0x80, 0x00] = OpcodeContinueFrame" by code_simp
  have c: "\<not> frame_isMasked [0x80, 0x00]" by code_simp
  have d: "frame_complete [0x80, 0x00]" by code_simp
  from continuation_without_initial_frame [OF a b c d] show ?thesis using a b c d by blast
qed

text \<open>
  The claim as stated fails: a continuation frame with one payload byte and no FIN, on an
  open connection with nothing in progress, is neither rejected nor reported; it becomes
  the message in progress.
\<close>

theorem continuation_opens_message:
  "processDataFrame ws_open [0x00, 0x01, 0x61] =
     Return (Ret_copied 0)
       (ws_open\<lparr>responseStack :=
          [\<lparr>isFin = False, opcode = 0, bytesLeft = 0, frameCount = 1, buffer = [0x61]\<rparr>]\<rparr>)"
  by code_simp

section \<open>Close frames\<close>



lemma Sender_close_throws_None [simp]: "Sender_close_throws None = None"
  by (simp add: Sender_close_throws_def)

lemma close_effects: "\<exists>xs. effects (state_of (close s code reason)) = effects s @ xs"
  by (auto simp: close_def closeSocket_def abortHandshake_def emitClose_def socket_close_def
      emit_defs Let_def split: option.splits)



lemma take_prefix: "take (length xs) (xs @ ys) = xs"
  by simp





section \<open>Masked frames\<close>

lemma masked_length: "frame_isMasked buf \<Longrightarrow> 2 \<le> length buf"
  by (auto simp: frame_isMasked_def js_index_def toInt32_def split: if_splits)

lemma close_keeps_messages:
  "dispatched (state_of (close s code reason)) = dispatched s
   \<and> responseStack (state_of (close s code reason)) = responseStack s"
  by (auto simp: close_def closeSocket_def abortHandshake_def emitClose_def socket_close_def
      emit_defs dispatched_def Let_def split: option.splits)

lemma masked_frame_outcome:
  assumes "frame_isMasked buf"
  shows "processDataFrame s buf =
      (if errorListener s then
         (case close (s\<lparr>effects := effects s @ [EmitEvent_error masked_error]\<rparr>) (Some 1002)
                 (Some (message masked_error)) of
            Throw e s1 \<Rightarrow> Throw e s1
          | Return u s1 \<Rightarrow> Return Ret_undefined s1)
       else Throw masked_error (s\<lparr>effects := effects s @ [EmitEvent_error masked_error]\<rparr>))"
    and "responseStack (state_of (processDataFrame s buf)) = responseStack s"
    and "dispatched (state_of (processDataFrame s buf)) = dispatched s"
    and "take (Suc (length (effects s))) (effects (state_of (processDataFrame s buf)))
           = effects s @ [EmitEvent_error masked_error]"
    and "\<not> errorListener s \<Longrightarrow>
           processDataFramesInBuffer s (JBuffer buf) =
             Throw masked_error (s\<lparr>effects := effects s @ [EmitEvent_error masked_error]\<rparr>)"
    and "errorListener s \<Longrightarrow> readyState s = OPEN \<Longrightarrow> sender s \<Longrightarrow>
           processDataFrame s buf =
             Return Ret_undefined
               (s\<lparr>readyState := CLOSING,
                  effects := effects s @ [EmitEvent_error masked_error,
                     Sender_close_call (Some 1002) (Some (message masked_error))],
                  pending := pending s
                     @ [Cb_close (Some 1002) (Some (message masked_error))]\<rparr>)"
    and "errorListener s \<Longrightarrow>
         readyState s = CLOSED
           \<or> readyState s = CLOSING \<and> \<not> (closeFrameSent s \<and> closeFrameReceived s) \<Longrightarrow>
           processDataFrame s buf =
             Return Ret_undefined (s\<lparr>effects := effects s @ [EmitEvent_error masked_error]\<rparr>)"
proof -
  let ?s1 = "s\<lparr>effects := effects s @ [EmitEvent_error masked_error]\<rparr>"
  let ?c = "close ?s1 (Some 1002) (Some (message masked_error))"
  show pdf: "processDataFrame s buf =
      (if errorListener s then
         (case ?c of Throw e s1 \<Rightarrow> Throw e s1 | Return u s1 \<Rightarrow> Return Ret_undefined s1)
       else Throw masked_error ?s1)"
    using assms
    by (simp add: processDataFrame_def disconnectAndEmitError_def protocolError_def
        masked_error_def emit_defs split: outcome.split)
  have st: "state_of (processDataFrame s buf) = (if errorListener s then state_of ?c else ?s1)"
    by (simp add: pdf split: outcome.split)
  show "responseStack (state_of (processDataFrame s buf)) = responseStack s"
    using close_keeps_messages [of ?s1] by (simp add: st)
  show "dispatched (state_of (processDataFrame s buf)) = dispatched s"
    using close_keeps_messages [of ?s1] by (simp add: st dispatched_def)
  show "take (Suc (length (effects s))) (effects (state_of (processDataFrame s buf)))
           = effects s @ [EmitEvent_error masked_error]"
    using close_effects [of ?s1 "Some 1002" "Some (message masked_error)"]
    by (auto simp: st)
  show "processDataFramesInBuffer s (JBuffer buf) = Throw masked_error ?s1"
    if "\<not> errorListener s"
    using that masked_length [OF assms] by (simp add: pdf)
  show "processDataFrame s buf =
             Return Ret_undefined
               (s\<lparr>readyState := CLOSING,
                  effects := effects s @ [EmitEvent_error masked_error,
                     Sender_close_call (Some 1002) (Some (message masked_error))],
                  pending := pending s
                     @ [Cb_close (Some 1002) (Some (message masked_error))]\<rparr>)"
    if "errorListener s" and "readyState s = OPEN" and "sender s"
    using that
    by (simp add: pdf close_def Let_def Sender_close_throws_def writeUInt16BE_def)
  show "processDataFrame s buf = Return Ret_undefined ?s1"
    if "errorListener s"
      and "readyState s = CLOSED
           \<or> readyState s = CLOSING \<and> \<not> (closeFrameSent s \<and> closeFrameReceived s)"
    using that by (auto simp: pdf close_def)
qed




section \<open>Deliveries\<close>

lemma data_frame_dispatched:
  assumes "responseStack s = []" and "frame_isFin buf" and "\<not> frame_isMasked buf"
    and "frame_complete buf"
    and "frame_opcode buf = OpcodeTextFrame \<or> frame_opcode buf = OpcodeBinaryFrame"
  shows "processDataFramesInBuffer s (JBuffer buf) =
     Return () (record_effect s (EmitEvent_message
        (if frame_opcode buf = OpcodeTextFrame then Text (Utf8 (frame_payload buf))
         else Binary (frame_payload buf))))"
proof -
  have ctl: "\<not> ((frame_opcode buf = OpcodeConnectionClose \<or> frame_opcode buf = OpcodePing)
              \<and> \<not> frame_isFin buf)"
    using assms(2) by simp
  have "processDataFrame s buf =
     Return (Ret_copied (length buf - (frame_payloadDataOffset buf + frame_payloadDataLength buf)))
       (record_effect s (EmitEvent_message
        (if frame_opcode buf = OpcodeTextFrame then Text (Utf8 (frame_payload buf))
         else Binary (frame_payload buf))))"
    using assms(1,2,5)
    by (auto simp: processDataFrame_complete [OF assms(3) ctl assms(4)]
        enter_frame_empty [OF assms(1,4)] processResponse_def pop_def emit_defs
        OpcodeConnectionClose_def OpcodePing_def OpcodeTextFrame_def OpcodeBinaryFrame_def)
  then show ?thesis
    using frame_complete_length [OF assms(4)] by simp
qed

text \<open>
  C2, as the code has it by design. A delivery that starts with a complete, unmasked,
  final text or binary frame, with no message in progress, has that frame decoded and its
  "message" event raised first. No undecoded bytes are kept for the next delivery: the
  state of a connection has no place for them, and a delivery of a single byte throws
  "Fragmented data in buffer which cannot be processed" and changes nothing.
\<close>

theorem delivery_first_frame_no_leftover:
  "(length b = 1 \<longrightarrow>
      processDataFramesInBuffer s (JBuffer b) =
        Throw (Error (Lit ''Fragmented data in buffer which cannot be processed'')) s)
   \<and> (responseStack s = [] \<and> frame_isFin buf \<and> \<not> frame_isMasked buf \<and> frame_complete buf
       \<and> frame_opcode buf = OpcodeTextFrame \<longrightarrow>
       take (Suc (length (effects s)))
            (effects (state_of (processDataFramesInBuffer s (JBuffer buf))))
         = effects s @ [EmitEvent_message (Text (Utf8 (frame_payload buf)))])
   \<and> (responseStack s = [] \<and> frame_isFin buf \<and> \<not> frame_isMasked buf \<and> frame_complete buf
       \<and> frame_opcode buf = OpcodeBinaryFrame \<longrightarrow>
       take (Suc (length (effects s)))
            (effects (state_of (processDataFramesInBuffer s (JBuffer buf))))
         = effects s @ [EmitEvent_message (Binary (frame_payload buf))])"
proof -
  have a: "processDataFramesInBuffer s (JBuffer b) =
        Throw (Error (Lit ''Fragmented data in buffer which cannot be processed'')) s"
    if "length b = 1"
    using that by simp
  have t: "take (Suc (length (effects s)))
            (effects (state_of (processDataFramesInBuffer s (JBuffer buf))))
         = effects s @ [EmitEvent_message (Text (Utf8 (frame_payload buf)))]"
    if "responseStack s = []" and "frame_isFin buf" and "\<not> frame_isMasked buf"
      and "frame_complete buf" and "frame_opcode buf = OpcodeTextFrame"
    using that data_frame_dispatched [of s buf] by (simp add: emit_defs)
  have b: "take (Suc (length (effects s)))
            (effects (state_of (processDataFramesInBuffer s (JBuffer buf))))
         = effects s @ [EmitEvent_message (Binary (frame_payload buf))]"
    if "responseStack s = []" and "frame_isFin buf" and "\<not> frame_isMasked buf"
      and "frame_complete buf" and "frame_opcode buf = OpcodeBinaryFrame"
    using that data_frame_dispatched [of s buf]
    by (simp add: emit_defs OpcodeTextFrame_def OpcodeBinaryFrame_def)
  from a t b show ?thesis by blast
qed

theorem delivery_first_frame_no_leftover_witness:
  "length [0x81 :: byte] = 1
   \<and> processDataFramesInBuffer ws_open (JBuffer [0x81]) =
        Throw (Error (Lit ''Fragmented data in buffer which cannot be processed'')) ws_open
   \<and> (responseStack ws_open = [] \<and> frame_isFin [0x81, 0x01, 0x61]
        \<and> \<not> frame_isMasked [0x81, 0x01, 0x61] \<and> frame_complete [0x81, 0x01, 0x61]
        \<and> frame_opcode [0x81, 0x01, 0x61] = OpcodeTextFrame)
   \<and> take (Suc (length (effects ws_open)))
          (effects (state_of (processDataFramesInBuffer ws_open (JBuffer [0x81, 0x01, 0x61]))))
        = effects ws_open @ [EmitEvent_message (Text (Utf8 (frame_payload [0x81, 0x01, 0x61])))]"
proof -
  have a: "length [0x81 :: byte] = 1" by simp
  have b: "responseStack ws_open = [] \<and> frame_isFin [0x81, 0x01, 0x61]
        \<and> \<not> frame_isMasked [0x81, 0x01, 0x61] \<and> frame_complete [0x81, 0x01, 0x61]
        \<and> frame_opcode [0x81, 0x01, 0x61] = OpcodeTextFrame"
    by code_simp
  from delivery_first_frame_no_leftover [of "[0x81]" ws_open "[0x81, 0x01, 0x61]"] a b
  show ?thesis by blast
qed

text \<open>
  The claim as stated fails: of two complete text frames "a" and "b" followed by one
  leftover byte, only "a" is dispatched, and the state after the delivery is the state
  after "a" alone. (\<open>processDataFrame\<close> returns the value of \<open>buffer.copy\<close>, a number, so the
  loop of \<open>processDataFramesInBuffer\<close> ends after its first round.)
\<close>

theorem second_frame_not_dispatched:
  "processDataFramesInBuffer ws_open (JBuffer [0x81, 0x01, 0x61, 0x81, 0x01, 0x62, 0x81]) =
     Return () (ws_open\<lparr>effects := [EmitEvent_message (Text (Utf8 [0x61]))]\<rparr>)"
  by code_simp

section \<open>readyState never moves backward\<close>

lemma advanced_refl [simp]: "advanced s s"
  by (simp add: advanced_def)

lemma advanced_trans: "advanced s t \<Longrightarrow> advanced t u \<Longrightarrow> advanced s u"
  by (simp add: advanced_def)

lemma advanced_same: "readyState t = readyState s \<Longrightarrow> advanced s t"
  by (simp add: advanced_def)

lemma advanced_CLOSED: "readyState t = CLOSED \<Longrightarrow> advanced s t"
  by (cases "readyState s") (simp_all add: advanced_def)

lemma close_advanced: "advanced s (state_of (close s code reason))"
  by (cases "readyState s")
     (auto simp: advanced_def close_def abortHandshake_def closeSocket_def emitClose_def
        socket_close_def emit_defs Let_def split: option.splits)

lemma close_callback_advanced: "advanced s (state_of (close_callback s code reason))"
  by (cases "readyState s")
     (auto simp: advanced_def close_callback_def closeSocket_def emitClose_def
        socket_close_def emit_defs Let_def split: option.splits)

lemma pong_advanced: "advanced s (state_of (pong s data msk cb))"
  by (auto simp: advanced_def pong_def sendAfterClose_def call_cb_def emit_defs
      split: option.splits callback.splits)

lemma send_advanced: "advanced s (state_of (send s data binary compress fin cb))"
  by (auto simp: advanced_def send_def sendAfterClose_def call_cb_def emit_defs
      split: option.splits callback.splits)

lemma disconnectAndEmitError_cases:
  "disconnectAndEmitError s err closeCode =
     (if errorListener s then
        close (record_effect s (EmitEvent_error err))
          (Some (case closeCode of None \<Rightarrow> abnormal
                 | Some c \<Rightarrow> if c = 0 then abnormal else c))
          (Some (message err))
      else Throw err (record_effect s (EmitEvent_error err)))"
  by (simp add: disconnectAndEmitError_def emitEvent_def emit_def)

lemma disconnectAndEmitError_advanced:
  "advanced s (state_of (disconnectAndEmitError s err closeCode))"
proof (cases "errorListener s")
  case True
  let ?c = "Some (case closeCode of None \<Rightarrow> abnormal
                  | Some c \<Rightarrow> if c = 0 then abnormal else c)"
  have "advanced (record_effect s (EmitEvent_error err))
          (state_of (close (record_effect s (EmitEvent_error err)) ?c (Some (message err))))"
    by (rule close_advanced)
  moreover have "advanced s (record_effect s (EmitEvent_error err))"
    by (simp add: advanced_def record_effect_def)
  ultimately show ?thesis
    using True by (simp add: disconnectAndEmitError_cases advanced_def)
next
  case False
  then show ?thesis
    by (simp add: disconnectAndEmitError_cases advanced_def record_effect_def)
qed

lemma processResponse_advanced: "advanced s (state_of (processResponse s r))"
proof -
  have p: "advanced s (state_of (case pong s d m c of Throw e s1 \<Rightarrow> Throw e s1
              | Return u s1 \<Rightarrow>
                  (case emit s1 ev of Throw e s2 \<Rightarrow> Throw e s2
                   | Return u s2 \<Rightarrow> Return () (pop s2))))" for d m c ev
    using pong_advanced [of s d m c]
    by (cases "pong s d m c")
       (auto simp: advanced_def pop_def emit_defs split: option.splits)
  have c: "advanced s (state_of (case close (s\<lparr>closeFrameReceived := True\<rparr>) code reason of
              Throw e s2 \<Rightarrow> Throw e s2 | Return u s2 \<Rightarrow> Return () (pop s2)))" for code reason
    using close_advanced [of "s\<lparr>closeFrameReceived := True\<rparr>" code reason]
    by (cases "close (s\<lparr>closeFrameReceived := True\<rparr>) code reason")
       (simp_all add: advanced_def pop_def)
  show ?thesis
    using p c
    by (simp add: processResponse_def Let_def pop_def emit_defs advanced_same
        split: sum.split prod.split)
qed

lemma enter_frame_advanced: "advanced s (state_of (enter_frame s buf data))"
proof (cases "last_response s")
  case None
  then show ?thesis by (simp add: enter_frame_def Let_def advanced_same)
next
  case (Some r0)
  show ?thesis
  proof (cases "frame_opcode buf = OpcodeContinueFrame")
    case True
    with Some show ?thesis by (simp add: enter_frame_def Let_def advanced_same)
  next
    case False
    let ?d = "disconnectAndEmitError s
       (Error (Lit ''A frame after a fragmeneted message must be a continue frame.'')) None"
    have "advanced s (state_of ?d)" by (rule disconnectAndEmitError_advanced)
    with Some False show ?thesis
      by (cases ?d) (simp_all add: enter_frame_def Let_def advanced_def)
  qed
qed

lemma processDataFrame_advanced: "advanced s (state_of (processDataFrame s buf))"
proof -
  have d: "advanced s (state_of (case disconnectAndEmitError s err c of
              Throw e s1 \<Rightarrow> Throw e s1 | Return u s1 \<Rightarrow> Return Ret_undefined s1))" for err c
    using disconnectAndEmitError_advanced [of s err c]
    by (cases "disconnectAndEmitError s err c") simp_all
  have e: "advanced s (state_of (case enter_frame s buf data of
              Throw e s1 \<Rightarrow> Throw e s1
            | Return response s1 \<Rightarrow>
                (case processResponse s1 response of
                   Throw e s2 \<Rightarrow> Throw e s2
                 | Return u s2 \<Rightarrow> k s2)))" if "\<And>t. state_of (k t) = t" for data k
  proof (cases "enter_frame s buf data")
    case (Return r s1)
    have 1: "advanced s s1" using enter_frame_advanced [of s buf data] Return by simp
    have 2: "advanced s1 (state_of (processResponse s1 r))" by (rule processResponse_advanced)
    show ?thesis
      using advanced_trans [OF 1 2] Return that
      by (cases "processResponse s1 r") simp_all
  next
    case (Throw e s1)
    then show ?thesis using enter_frame_advanced [of s buf data] by simp
  qed
  show ?thesis
    unfolding processDataFrame_def Let_def
    apply (simp only: split: if_split sum.split prod.split)
    apply (intro conjI impI allI d)
      apply simp_all
    apply (rule e)
    apply (simp split: sum.split prod.split)
    done
qed

lemma processDataFramesInBuffer_advanced:
  "advanced s (state_of (processDataFramesInBuffer s (JBuffer b)))"
proof (cases "processDataFrame s b")
  case (Return r s1)
  with processDataFrame_advanced [of s b] show ?thesis by (cases r) simp_all
next
  case (Throw e s1)
  with processDataFrame_advanced [of s b] show ?thesis by simp
qed

lemma abortHandshake_advanced:
  "readyState s = CONNECTING \<Longrightarrow> advanced s (state_of (abortHandshake s msg))"
  by (auto simp: advanced_def abortHandshake_def Let_def split: option.splits)

lemma processInputStream_advanced:
  "advanced s (state_of (processInputStream acceptOk s bytesProcessed buf))"
proof (cases "bytesProcessed = - 1")
  case True
  then show ?thesis
    by (simp add: processInputStream_def socketOnClose_def emitClose_def emit_defs
        advanced_CLOSED)
next
  case False
  show ?thesis
  proof (cases buf)
    case None
    with False show ?thesis by (simp add: processInputStream_def)
  next
    case (Some b)
    show ?thesis
    proof (cases "readyState s = CONNECTING")
      case True
      with False Some show ?thesis
        by (simp add: processInputStream_def processHandshake_def abortHandshake_advanced
            emit_defs advanced_def)
    next
      case c: False
      with False Some processDataFramesInBuffer_advanced [of s b] show ?thesis
        by (simp add: processInputStream_def)
    qed
  qed
qed

lemma write_completed_advanced: "advanced s (state_of (write_completed s i))"
proof (cases "i < length (pending s)")
  case True
  let ?s1 = "s\<lparr>pending := take i (pending s) @ drop (Suc i) (pending s)\<rparr>"
  have "advanced s ?s1" by (simp add: advanced_def)
  moreover have "advanced ?s1 (state_of (close_callback ?s1 c r))" for c r
    by (rule close_callback_advanced)
  ultimately have "advanced s (state_of (close_callback ?s1 c r))" for c r
    by (rule advanced_trans)
  with True show ?thesis
    by (simp add: write_completed_def Let_def call_cb_def emit_defs advanced_same
        split: write_cb.split callback.split)
next
  case False
  then show ?thesis by (simp add: write_completed_def)
qed

lemma step_advanced: "advanced s (state_of (step acceptOk s ev))"
proof (cases ev)
  case (Call_close code reason)
  then show ?thesis by (simp add: close_advanced)
next
  case (Call_send data binary compress fin cb)
  then show ?thesis by (simp add: send_advanced)
next
  case (Call_pong data msk cb)
  then show ?thesis by (simp add: pong_advanced)
next
  case Socket_connected
  then show ?thesis
    by (simp add: socket_connected_def Let_def emit_defs advanced_same split: option.split)
next
  case (Socket_error msg)
  then show ?thesis by (simp add: socket_error_def emit_defs advanced_CLOSED)
next
  case (Pump_callback bytesProcessed buf)
  then show ?thesis by (simp add: processInputStream_advanced)
next
  case (Write_completed i)
  then show ?thesis by (simp add: write_completed_advanced)
next
  case (Listen_error b)
  then show ?thesis by (simp add: advanced_same)
qed

lemma run_advanced: "advanced s (run acceptOk s evs)"
proof (induction evs arbitrary: s)
  case Nil
  show ?case by simp
next
  case (Cons ev evs)
  have "advanced s (state_of (step acceptOk s ev))" by (rule step_advanced)
  moreover have "advanced (state_of (step acceptOk s ev)) (run acceptOk (state_of (step acceptOk s ev)) evs)"
    by (rule Cons.IH)
  ultimately show ?case by (simp add: advanced_trans)
qed

text \<open>
  C8. Every step of a connection (a call of \<open>close\<close>, \<open>send\<close> or \<open>pong\<close>, a callback of the
  socket or of the pump, the completion of a write, a change of the listeners for
  \<open>'error'\<close>) leaves \<open>readyState\<close> where it is or
  moves it forward in the order \<open>CONNECTING\<close>, \<open>OPEN\<close>, \<open>CLOSING\<close>, \<open>CLOSED\<close>; so does every
  sequence of steps, and a connection that is \<open>OPEN\<close> after it was \<open>CONNECTING\<close> or \<open>OPEN\<close>
  before. (Inside \<open>abortHandshake\<close> and \<open>socketOnClose\<close> the state passes through \<open>CLOSING\<close>
  on its way to \<open>CLOSED\<close>; both run only from states before \<open>CLOSED\<close>.)
\<close>

theorem readyState_monotonic:
  "readyState_value (readyState s) \<le> readyState_value (readyState (state_of (step acceptOk s ev)))
   \<and> readyState_value (readyState s) \<le> readyState_value (readyState (run acceptOk s evs))
   \<and> (readyState (run acceptOk s evs) = OPEN \<longrightarrow>
        readyState s = CONNECTING \<or> readyState s = OPEN)"
proof -
  have a: "advanced s (state_of (step acceptOk s ev))" by (rule step_advanced)
  have b: "advanced s (run acceptOk s evs)" by (rule run_advanced)
  have c: "readyState s = CONNECTING \<or> readyState s = OPEN" if "readyState (run acceptOk s evs) = OPEN"
    using b that by (cases "readyState s") (simp_all add: advanced_def)
  from a b c show ?thesis by (simp add: advanced_def)
qed

theorem readyState_monotonic_witness:
  "readyState (run (\<lambda>b. True) ws_new [Socket_connected, Pump_callback 12 (Some status_101)]) = OPEN
   \<and> (readyState ws_new = CONNECTING \<or> readyState ws_new = OPEN)
   \<and> readyState_value (readyState ws_new)
       \<le> readyState_value (readyState
            (run (\<lambda>b. True) ws_new [Socket_connected, Pump_callback 12 (Some status_101)]))"
proof -
  have a: "readyState (run (\<lambda>b. True) ws_new
             [Socket_connected, Pump_callback 12 (Some status_101)]) = OPEN"
    by (simp add: ws_new_def socket_connected_def processInputStream_def processHandshake_def
        status_101_def emit_defs Let_def)
  from readyState_monotonic [of ws_new "\<lambda>b. True" Socket_connected
      "[Socket_connected, Pump_callback 12 (Some status_101)]"] a
  show ?thesis by blast
qed

section \<open>The close handshake\<close>

lemma stable_stack: "frame_stable P \<Longrightarrow> P s \<Longrightarrow> P (s\<lparr>responseStack := r\<rparr>)"
  by (simp add: frame_stable_def)

lemma stable_pop: "frame_stable P \<Longrightarrow> P s \<Longrightarrow> P (pop s)"
  unfolding pop_def by (rule stable_stack)

lemma stable_emit:
  "frame_stable P \<Longrightarrow> P s \<Longrightarrow> e \<noteq> Socket_close \<Longrightarrow> \<not> is_close_event e \<Longrightarrow> P (record_effect s e)"
  by (simp add: frame_stable_def)

lemma emit_plain: "unhandled e = None \<Longrightarrow> emit s e = Return () (record_effect s e)"
  by (simp add: emit_def)

lemma emitEvent_plain: "unhandled e = None \<Longrightarrow> emitEvent s e = Return () (record_effect s e)"
  by (simp add: emitEvent_def emit_def)

lemma stable_call:
  "frame_stable P \<Longrightarrow> P s \<Longrightarrow> e \<noteq> Socket_close \<Longrightarrow> \<not> is_close_event e \<Longrightarrow> \<not> is_close_cb cb
     \<Longrightarrow> P (s\<lparr>effects := effects s @ [e], pending := pending s @ [cb]\<rparr>)"
  by (simp add: frame_stable_def)

lemma stable_close: "frame_stable P \<Longrightarrow> P s \<Longrightarrow> P (state_of (close s code reason))"
  by (simp add: frame_stable_def)

lemma stable_close_received:
  "frame_stable P \<Longrightarrow> P s \<Longrightarrow> P (state_of (close (s\<lparr>closeFrameReceived := True\<rparr>) code reason))"
  by (simp add: frame_stable_def)

lemma stable_sendAfterClose:
  assumes "frame_stable P" and "P s"
  shows "P (sendAfterClose s cb)"
proof (cases cb)
  case None
  with assms show ?thesis by (simp add: sendAfterClose_def)
next
  case (Some c)
  with assms show ?thesis
    by (cases c) (simp_all add: sendAfterClose_def call_cb_def stable_emit [OF assms(1)])
qed

lemma stable_pong:
  assumes "frame_stable P" and "P s"
  shows "P (state_of (pong s data msk cb))"
  using assms(2)
  by (simp add: pong_def stable_sendAfterClose [OF assms(1)] stable_call [OF assms(1)])

lemma stable_send:
  assumes "frame_stable P" and "P s"
  shows "P (state_of (send s data binary compress fin cb))"
  using assms(2)
  by (simp add: send_def stable_sendAfterClose [OF assms(1)] stable_call [OF assms(1)]
      split: option.split)

lemma stable_disconnectAndEmitError:
  assumes "frame_stable P" and "P s"
  shows "P (state_of (disconnectAndEmitError s err closeCode))"
proof -
  have e: "P (record_effect s (EmitEvent_error err))"
    using assms by (rule stable_emit) simp_all
  show ?thesis
  proof (cases "errorListener s")
    case True
    with stable_close [OF assms(1) e] show ?thesis
      by (simp add: disconnectAndEmitError_cases)
  next
    case False
    with e show ?thesis by (simp add: disconnectAndEmitError_cases)
  qed
qed

lemma stable_processResponse:
  assumes "frame_stable P" and "P s"
  shows "P (state_of (processResponse s r))"
proof -
  note st = assms(1)
  have p: "P (state_of (case pong s d m c of Throw e s1 \<Rightarrow> Throw e s1
              | Return u s1 \<Rightarrow>
                  (case emit s1 (Emit_ping b) of Throw e s2 \<Rightarrow> Throw e s2
                   | Return u s2 \<Rightarrow> Return () (pop s2))))" for d m c b
    using stable_pong [OF assms, of d m c]
    by (cases "pong s d m c")
       (simp_all add: emit_plain stable_pop [OF st] stable_emit [OF st])
  have c: "P (state_of (case close (s\<lparr>closeFrameReceived := True\<rparr>) code reason of
              Throw e s2 \<Rightarrow> Throw e s2 | Return u s2 \<Rightarrow> Return () (pop s2)))" for code reason
    using stable_close_received [OF assms, of code reason]
    by (cases "close (s\<lparr>closeFrameReceived := True\<rparr>) code reason")
       (simp_all add: stable_pop [OF st])
  show ?thesis
    using p c assms(2)
    by (simp add: processResponse_def Let_def emitEvent_plain stable_pop [OF st]
        stable_emit [OF st] split: sum.split prod.split)
qed

lemma stable_enter_frame:
  assumes "frame_stable P" and "P s"
  shows "P (state_of (enter_frame s buf data))"
proof (cases "last_response s")
  case None
  with assms(2) show ?thesis by (simp add: enter_frame_def Let_def stable_stack [OF assms(1)])
next
  case (Some r0)
  show ?thesis
  proof (cases "frame_opcode buf = OpcodeContinueFrame")
    case True
    with Some assms(2) show ?thesis
      by (simp add: enter_frame_def Let_def stable_stack [OF assms(1)])
  next
    case False
    let ?d = "disconnectAndEmitError s
       (Error (Lit ''A frame after a fragmeneted message must be a continue frame.'')) None"
    have "P (state_of ?d)" using assms by (rule stable_disconnectAndEmitError)
    with Some False show ?thesis
      by (cases ?d) (simp_all add: enter_frame_def Let_def stable_stack [OF assms(1)])
  qed
qed

lemma stable_processDataFrame:
  assumes "frame_stable P" and "P s"
  shows "P (state_of (processDataFrame s buf))"
proof -
  have d: "P (state_of (case disconnectAndEmitError s err c of
              Throw e s1 \<Rightarrow> Throw e s1 | Return u s1 \<Rightarrow> Return Ret_undefined s1))" for err c
    using stable_disconnectAndEmitError [OF assms, of err c]
    by (cases "disconnectAndEmitError s err c") simp_all
  have e: "P (state_of (case enter_frame s buf data of
              Throw e s1 \<Rightarrow> Throw e s1
            | Return response s1 \<Rightarrow>
                (case processResponse s1 response of
                   Throw e s2 \<Rightarrow> Throw e s2
                 | Return u s2 \<Rightarrow> k s2)))" if "\<And>t. state_of (k t) = t" for data k
  proof (cases "enter_frame s buf data")
    case (Return r s1)
    have 1: "P s1" using stable_enter_frame [OF assms, of buf data] Return by simp
    have 2: "P (state_of (processResponse s1 r))" using assms(1) 1 by (rule stable_processResponse)
    show ?thesis
      using 2 Return that
      by (cases "processResponse s1 r") simp_all
  next
    case (Throw e s1)
    then show ?thesis using stable_enter_frame [OF assms, of buf data] by simp
  qed
  show ?thesis
    unfolding processDataFrame_def Let_def
    apply (simp only: split: if_split sum.split prod.split)
    apply (intro conjI impI allI d)
      apply (simp_all add: assms(2))
    apply (rule e)
    apply (simp split: sum.split prod.split)
    done
qed

lemma stable_processDataFramesInBuffer:
  assumes "frame_stable P" and "P s"
  shows "P (state_of (processDataFramesInBuffer s (JBuffer b)))"
proof (cases "processDataFrame s b")
  case (Return r s1)
  with stable_processDataFrame [OF assms, of b] assms(2) show ?thesis by (cases r) simp_all
next
  case (Throw e s1)
  with stable_processDataFrame [OF assms, of b] assms(2) show ?thesis by simp
qed

lemmas close_defs =
  close_def closeSocket_def abortHandshake_def emitClose_def socket_close_def emit_defs
  torn_down_def close_emitted_def Let_def

lemma handshake_inv_stable: "frame_stable handshake_inv"
  unfolding frame_stable_def
proof (intro conjI allI impI)
  fix s r assume "handshake_inv s"
  then show "handshake_inv (s\<lparr>responseStack := r\<rparr>)"
    by (auto simp: handshake_inv_def torn_down_def close_emitted_def)
next
  fix s e assume "handshake_inv s" "e \<noteq> Socket_close" "\<not> is_close_event e"
  then show "handshake_inv (record_effect s e)"
    by (auto simp: handshake_inv_def torn_down_def close_emitted_def emit_defs)
next
  fix s e cb
  assume "handshake_inv s" "e \<noteq> Socket_close" "\<not> is_close_event e" "\<not> is_close_cb cb"
  then show "handshake_inv (s\<lparr>effects := effects s @ [e], pending := pending s @ [cb]\<rparr>)"
    by (auto simp: handshake_inv_def torn_down_def close_emitted_def)
next
  fix s code reason assume "handshake_inv s"
  then show "handshake_inv (state_of (close s code reason))"
    by (cases "readyState s")
       (auto simp: handshake_inv_def close_defs split: option.splits)
next
  fix s code reason assume "handshake_inv s"
  then show "handshake_inv (state_of (close (s\<lparr>closeFrameReceived := True\<rparr>) code reason))"
    by (cases "readyState s")
       (auto simp: handshake_inv_def close_defs split: option.splits)
qed

lemma teardown_guarded_stable: "frame_stable teardown_guarded"
  unfolding frame_stable_def
proof (intro conjI allI impI)
  fix s r assume "teardown_guarded s"
  then show "teardown_guarded (s\<lparr>responseStack := r\<rparr>)"
    by (simp add: teardown_guarded_def torn_down_def)
next
  fix s e assume "teardown_guarded s" "e \<noteq> Socket_close" "\<not> is_close_event e"
  then show "teardown_guarded (record_effect s e)"
    by (simp add: teardown_guarded_def torn_down_def emit_defs)
next
  fix s e cb
  assume "teardown_guarded s" "e \<noteq> Socket_close" "\<not> is_close_event e" "\<not> is_close_cb cb"
  then show "teardown_guarded (s\<lparr>effects := effects s @ [e], pending := pending s @ [cb]\<rparr>)"
    by (simp add: teardown_guarded_def torn_down_def)
next
  fix s code reason assume "teardown_guarded s"
  then show "teardown_guarded (state_of (close s code reason))"
    by (cases "readyState s")
       (auto simp: teardown_guarded_def close_defs split: option.splits)
next
  fix s code reason assume "teardown_guarded s"
  then show "teardown_guarded (state_of (close (s\<lparr>closeFrameReceived := True\<rparr>) code reason))"
    by (cases "readyState s")
       (auto simp: teardown_guarded_def close_defs split: option.splits)
qed

lemma filter_without_nth:
  assumes "i < length p"
  shows "filter P p = filter P (take i p) @ (if P (p ! i) then [p ! i] else [])
           @ filter P (drop (Suc i) p)"
proof -
  have "p = take i p @ p ! i # drop (Suc i) p" using assms by (rule id_take_nth_drop)
  then have "filter P p = filter P (take i p @ p ! i # drop (Suc i) p)" by simp
  then show ?thesis by simp
qed

lemma write_completed_inv:
  assumes "handshake_inv s"
  shows "handshake_inv (state_of (write_completed s i))"
proof (cases "i < length (pending s)")
  case False
  with assms show ?thesis by (simp add: write_completed_def)
next
  case True
  let ?p = "take i (pending s) @ drop (Suc i) (pending s)"
  let ?s1 = "s\<lparr>pending := ?p\<rparr>"
  note f = filter_without_nth [OF True, of is_close_cb]
  show ?thesis
  proof (cases "is_close_cb (pending s ! i)")
    case False
    then have "filter is_close_cb ?p = filter is_close_cb (pending s)" using f by simp
    with assms have inv1: "handshake_inv ?s1"
      by (auto simp: handshake_inv_def torn_down_def close_emitted_def)
    have "handshake_inv (call_cb ?s1 c None)" for c
      using inv1
      by (cases c) (simp_all add: call_cb_def stable_emit [OF handshake_inv_stable])
    with inv1 True False show ?thesis
      by (cases "pending s ! i") (simp_all add: write_completed_def Let_def)
  next
    case c: True
    then obtain code reason where cb: "pending s ! i = Cb_close code reason"
      by (cases "pending s ! i") simp_all
    from assms have "length (filter is_close_cb (pending s)) \<le> 1"
      by (simp add: handshake_inv_def)
    with f c have empty: "filter is_close_cb ?p = []" by simp
    from f c have "filter is_close_cb (pending s) \<noteq> []" by simp
    with assms have ns: "\<not> closeFrameSent s" and no: "readyState s \<noteq> OPEN"
      by (auto simp: handshake_inv_def)
    from assms ns no empty have "handshake_inv (state_of (close_callback ?s1 code reason))"
      by (cases "readyState s")
         (auto simp: handshake_inv_def close_callback_def close_defs split: option.splits)
    with True cb show ?thesis by (simp add: write_completed_def Let_def)
  qed
qed

lemma write_completed_guarded:
  assumes "teardown_guarded s"
  shows "teardown_guarded (state_of (write_completed s i))"
  using assms
  by (cases "readyState s")
     (auto simp: teardown_guarded_def write_completed_def close_callback_def call_cb_def
        close_defs split: option.splits write_cb.splits callback.splits)

lemma handshake_inv_cong:
  assumes "(socket t = None) = (socket s = None)" and "readyState t = readyState s"
    and "torn_down t = torn_down s" and "close_emitted t = close_emitted s"
    and "closeFrameSent t = closeFrameSent s" and "closeFrameReceived t = closeFrameReceived s"
    and "filter is_close_cb (pending t) = filter is_close_cb (pending s)"
  shows "handshake_inv t = handshake_inv s"
  by (simp add: handshake_inv_def assms)

lemma socket_connected_inv:
  assumes "handshake_inv s"
  shows "handshake_inv (state_of (socket_connected s))"
proof -
  from assms obtain st where st: "socket s = Some st" by (auto simp: handshake_inv_def)
  let ?t = "record_effect
               (s\<lparr>sender := True, socket := Some CONNECTED,
                   effects := effects s @ [Socket_write_handshake],
                   pending := pending s @ [Cb_fun NOOP]\<rparr>) Stream_pump"
  have "socket_connected s = Return () ?t"
    using st by (simp add: socket_connected_def Let_def)
  moreover have "handshake_inv ?t = handshake_inv s"
    by (rule handshake_inv_cong) (simp_all add: emit_defs torn_down_def close_emitted_def st)
  ultimately show ?thesis using assms by simp
qed

lemma handshake_inv_step:
  assumes "handshake_inv s" and "\<not> transport_lost ev"
  shows "handshake_inv (state_of (step acceptOk s ev))"
proof (cases ev)
  case (Call_close code reason)
  with assms show ?thesis by (simp add: stable_close [OF handshake_inv_stable])
next
  case (Call_send data binary compress fin cb)
  with assms show ?thesis by (simp add: stable_send [OF handshake_inv_stable])
next
  case (Call_pong data msk cb)
  with assms show ?thesis by (simp add: stable_pong [OF handshake_inv_stable])
next
  case Socket_connected
  with assms(1) show ?thesis by (simp add: socket_connected_inv)
next
  case (Socket_error msg)
  with assms(2) show ?thesis by simp
next
  case (Pump_callback bytesProcessed buf)
  with assms(2) have nl: "bytesProcessed \<noteq> - 1" by simp
  from assms(1) have nc: "readyState s \<noteq> CONNECTING" by (simp add: handshake_inv_def)
  show ?thesis
  proof (cases buf)
    case None
    with Pump_callback nl assms(1) show ?thesis by (simp add: processInputStream_def)
  next
    case (Some b)
    with Pump_callback nl nc
      stable_processDataFramesInBuffer [OF handshake_inv_stable assms(1), of b]
    show ?thesis by (simp add: processInputStream_def)
  qed
next
  case (Write_completed i)
  with assms(1) show ?thesis by (simp add: write_completed_inv)
next
  case (Listen_error b)
  have "handshake_inv (s\<lparr>errorListener := b\<rparr>) = handshake_inv s"
    by (rule handshake_inv_cong) (simp_all add: torn_down_def close_emitted_def)
  with Listen_error assms(1) show ?thesis by simp
qed

lemma teardown_guarded_step:
  assumes "teardown_guarded s"
  shows "teardown_guarded (state_of (step acceptOk s ev))"
proof (cases ev)
  case (Call_close code reason)
  with assms show ?thesis by (simp add: stable_close [OF teardown_guarded_stable])
next
  case (Call_send data binary compress fin cb)
  with assms show ?thesis by (simp add: stable_send [OF teardown_guarded_stable])
next
  case (Call_pong data msk cb)
  with assms show ?thesis by (simp add: stable_pong [OF teardown_guarded_stable])
next
  case Socket_connected
  with assms(1) show ?thesis
    by (auto simp: teardown_guarded_def socket_connected_def Let_def emit_defs torn_down_def
        split: option.splits)
next
  case (Socket_error msg)
  with assms(1) show ?thesis
    by (simp add: teardown_guarded_def socket_error_def emit_defs torn_down_def)
next
  case (Pump_callback bytesProcessed buf)
  from assms(1) have nc: "readyState s \<noteq> CONNECTING" by (simp add: teardown_guarded_def)
  show ?thesis
  proof (cases "bytesProcessed = - 1")
    case True
    with Pump_callback assms(1) show ?thesis
      by (simp add: processInputStream_def socketOnClose_def emitClose_def emit_defs
          teardown_guarded_def torn_down_def)
  next
    case nl: False
    show ?thesis
    proof (cases buf)
      case None
      with Pump_callback nl assms(1) show ?thesis by (simp add: processInputStream_def)
    next
      case (Some b)
      with Pump_callback nl nc
        stable_processDataFramesInBuffer [OF teardown_guarded_stable assms(1), of b]
      show ?thesis by (simp add: processInputStream_def)
    qed
  qed
next
  case (Write_completed i)
  with assms(1) show ?thesis by (simp add: write_completed_guarded)
next
  case (Listen_error b)
  with assms(1) show ?thesis by (simp add: teardown_guarded_def torn_down_def)
qed

lemma handshake_inv_run:
  "handshake_inv s \<Longrightarrow> \<forall>ev \<in> set evs. \<not> transport_lost ev
     \<Longrightarrow> handshake_inv (run acceptOk s evs)"
proof (induction evs arbitrary: s)
  case Nil
  then show ?case by simp
next
  case (Cons ev evs)
  from Cons.prems have "handshake_inv (state_of (step acceptOk s ev))"
    by (intro handshake_inv_step) simp_all
  moreover from Cons.prems have "\<forall>ev \<in> set evs. \<not> transport_lost ev" by simp
  ultimately have "handshake_inv (run acceptOk (state_of (step acceptOk s ev)) evs)"
    by (rule Cons.IH)
  then show ?case by simp
qed

lemma teardown_guarded_run: "teardown_guarded s \<Longrightarrow> teardown_guarded (run acceptOk s evs)"
proof (induction evs arbitrary: s)
  case Nil
  then show ?case by simp
next
  case (Cons ev evs)
  from Cons.prems have "teardown_guarded (state_of (step acceptOk s ev))"
    by (rule teardown_guarded_step)
  then have "teardown_guarded (run acceptOk (state_of (step acceptOk s ev)) evs)"
    by (rule Cons.IH)
  then show ?case by simp
qed

lemma opened_inv: "opened s \<Longrightarrow> handshake_inv s \<and> teardown_guarded s"
  by (auto simp: opened_def handshake_inv_def teardown_guarded_def list_ex_iff filter_empty_conv)

text \<open>
  C4, as the code has it by design. From an open connection, after any sequence of
  steps: if the close handshake path has run (\<open>socket.close()\<close> was called) then the close
  frame has been sent and one has been received; and as long as the transport is not lost
  (the pump has not reported the end of the stream, the socket no error), the path has
  run and "close" has been emitted if and only if both flags are set, whatever the order
  in which they were set, and then, and only then, the connection is \<open>CLOSED\<close>.
\<close>

theorem close_handshake_iff:
  assumes "opened s"
  shows "(torn_down (run acceptOk s evs) \<longrightarrow>
            closeFrameSent (run acceptOk s evs) \<and> closeFrameReceived (run acceptOk s evs))
       \<and> ((\<forall>ev \<in> set evs. \<not> transport_lost ev) \<longrightarrow>
            (torn_down (run acceptOk s evs) \<and> close_emitted (run acceptOk s evs)
               \<longleftrightarrow> closeFrameSent (run acceptOk s evs) \<and> closeFrameReceived (run acceptOk s evs))
          \<and> (torn_down (run acceptOk s evs) \<longleftrightarrow> close_emitted (run acceptOk s evs))
          \<and> (torn_down (run acceptOk s evs) \<longleftrightarrow> readyState (run acceptOk s evs) = CLOSED))"
proof -
  from assms have i: "handshake_inv s" and g: "teardown_guarded s"
    by (simp_all add: opened_inv)
  have a: "torn_down (run acceptOk s evs) \<longrightarrow>
            closeFrameSent (run acceptOk s evs) \<and> closeFrameReceived (run acceptOk s evs)"
    using teardown_guarded_run [OF g, of acceptOk evs] by (simp add: teardown_guarded_def)
  have b: "handshake_inv (run acceptOk s evs)" if "\<forall>ev \<in> set evs. \<not> transport_lost ev"
    using i that by (rule handshake_inv_run)
  have c: "(torn_down (run acceptOk s evs) \<and> close_emitted (run acceptOk s evs)
               \<longleftrightarrow> closeFrameSent (run acceptOk s evs) \<and> closeFrameReceived (run acceptOk s evs))
          \<and> (torn_down (run acceptOk s evs) \<longleftrightarrow> close_emitted (run acceptOk s evs))
          \<and> (torn_down (run acceptOk s evs) \<longleftrightarrow> readyState (run acceptOk s evs) = CLOSED)"
    if "\<forall>ev \<in> set evs. \<not> transport_lost ev"
    using b [OF that] unfolding handshake_inv_def by blast
  from a c show ?thesis by blast
qed

theorem close_handshake_iff_witness:
  "opened ws_open
   \<and> \<not> transport_lost (Call_close (Some 1000) None)
   \<and> \<not> transport_lost (Write_completed 0)
   \<and> \<not> transport_lost (Pump_callback 4 (Some [0x88, 0x02, 0x03, 0xE8]))
   \<and> torn_down (run (\<lambda>b. True) ws_open [Call_close (Some 1000) None, Write_completed 0,
                    Pump_callback 4 (Some [0x88, 0x02, 0x03, 0xE8])])
   \<and> close_emitted (run (\<lambda>b. True) ws_open [Call_close (Some 1000) None, Write_completed 0,
                    Pump_callback 4 (Some [0x88, 0x02, 0x03, 0xE8])])
   \<and> torn_down (run (\<lambda>b. True) ws_open
         [Pump_callback 4 (Some [0x88, 0x02, 0x03, 0xE8]), Write_completed 0])
   \<and> \<not> torn_down (run (\<lambda>b. True) ws_open [Call_close (Some 1000) None, Write_completed 0])"
proof -
  let ?local = "[Call_close (Some 1000) None, Write_completed 0,
                 Pump_callback 4 (Some [0x88, 0x02, 0x03, 0xE8])]"
  let ?remote = "[Pump_callback 4 (Some [0x88, 0x02, 0x03, 0xE8]), Write_completed 0]"
  let ?half = "[Call_close (Some 1000) None, Write_completed 0]"
  have o: "opened ws_open"
    by (simp add: opened_def ws_open_def torn_down_def close_emitted_def)
  have l: "\<forall>ev \<in> set ?local. \<not> transport_lost ev" by simp
  have r: "\<forall>ev \<in> set ?remote. \<not> transport_lost ev" by simp
  have h: "\<forall>ev \<in> set ?half. \<not> transport_lost ev" by simp
  have fl: "closeFrameSent (run (\<lambda>b. True) ws_open ?local)
            \<and> closeFrameReceived (run (\<lambda>b. True) ws_open ?local)"
    by (simp add: ws_open_def run_defs)
  have fr: "closeFrameSent (run (\<lambda>b. True) ws_open ?remote)
            \<and> closeFrameReceived (run (\<lambda>b. True) ws_open ?remote)"
    by (simp add: ws_open_def run_defs)
  have fh: "\<not> closeFrameReceived (run (\<lambda>b. True) ws_open ?half)"
    by (simp add: ws_open_def run_defs)
  from close_handshake_iff [OF o, of "\<lambda>b. True" ?local] l fl
  have 1: "torn_down (run (\<lambda>b. True) ws_open ?local)
           \<and> close_emitted (run (\<lambda>b. True) ws_open ?local)"
    by blast
  from close_handshake_iff [OF o, of "\<lambda>b. True" ?remote] r fr
  have 2: "torn_down (run (\<lambda>b. True) ws_open ?remote)" by blast
  from close_handshake_iff [OF o, of "\<lambda>b. True" ?half] fh
  have 3: "\<not> torn_down (run (\<lambda>b. True) ws_open ?half)" by blast
  from o 1 2 3 show ?thesis by simp
qed

text \<open>
  The claim as stated fails once the transport is lost in the middle of the handshake.
  The server's close frame arrives, and the client's answering close frame is handed to
  the socket; the pump reports the end of the stream before that write completes, which
  closes the connection outside of the handshake path (\<open>socketOnClose\<close>: "close" with code
  1006, the socket forgotten); then the write completes. Both flags are set now, and the
  handshake path has not torn down the transport.
\<close>

theorem handshake_cut_by_transport_loss:
  "closeFrameSent (run (\<lambda>b. True) ws_open
       [Pump_callback 4 (Some [0x88, 0x02, 0x03, 0xE8]), Pump_callback (- 1) None,
        Write_completed 0])
   \<and> closeFrameReceived (run (\<lambda>b. True) ws_open
       [Pump_callback 4 (Some [0x88, 0x02, 0x03, 0xE8]), Pump_callback (- 1) None,
        Write_completed 0])
   \<and> \<not> torn_down (run (\<lambda>b. True) ws_open
       [Pump_callback 4 (Some [0x88, 0x02, 0x03, 0xE8]), Pump_callback (- 1) None,
        Write_completed 0])
   \<and> effects (run (\<lambda>b. True) ws_open
       [Pump_callback 4 (Some [0x88, 0x02, 0x03, 0xE8]), Pump_callback (- 1) None,
        Write_completed 0])
     = [Sender_close_call (Some 1000) (Some (Utf8 [])), EmitEvent_close 1006 (Lit [])]"
  by (simp add: ws_open_def run_defs socketOnClose_def torn_down_def)

section \<open>Encoding an outbound frame\<close>

lemma applyMask_inplace_eq:
  assumes "r \<noteq> m" and "length (h m) = 4"
  shows "applyMask h r m r 0 (length (h r)) = h(r := masked_bytes (h r) (h m))"
proof (rule ext)
  fix x
  show "applyMask h r m r 0 (length (h r)) x = (h(r := masked_bytes (h r) (h m))) x"
  proof (cases "x = r")
    case False
    then show ?thesis by (simp add: applyMask_other)
  next
    case True
    have "applyMask h r m r 0 (length (h r)) r = masked_bytes (h r) (h m)"
    proof (rule nth_equalityI)
      show "length (applyMask h r m r 0 (length (h r)) r) = length (masked_bytes (h r) (h m))"
        by (simp add: applyMask_length masked_bytes_def)
    next
      fix i assume "i < length (applyMask h r m r 0 (length (h r)) r)"
      then have i: "i < length (h r)" by (simp add: applyMask_length)
      from applyMask_inplace_nth [where h = h and n = "length (h r)", OF assms(1) i] i assms(2)
      show "applyMask h r m r 0 (length (h r)) r ! i = masked_bytes (h r) (h m) ! i"
        by (simp add: masked_bytes_def js_index_def toInt32_def)
    qed
    with True show ?thesis by simp
  qed
qed

lemma randomFillSync_mask:
  assumes "length rnd = 4" and "length (h MaskBuf) = 4"
  shows "randomFillSync h MaskBuf 0 4 rnd = h(MaskBuf := rnd)"
  using assms by (simp add: randomFillSync_def Buffer_copy_def Let_def)

lemma alloc_explicit:
  "Buffer_allocUnsafe junk 6 = [junk 0, junk 1, junk 2, junk 3, junk 4, junk 5]"
  "Buffer_allocUnsafe junk 8 = [junk 0, junk 1, junk 2, junk 3, junk 4, junk 5, junk 6, junk 7]"
  "Buffer_allocUnsafe junk 14 = [junk 0, junk 1, junk 2, junk 3, junk 4, junk 5, junk 6, junk 7,
      junk 8, junk 9, junk 10, junk 11, junk 12, junk 13]"
  by (simp_all add: Buffer_allocUnsafe_def numeral_eq_Suc)

lemma update_explicit:
  "(x0 # xs)[0 := v] = v # xs"
  "(x0 # x1 # xs)[Suc 0 := v] = x0 # v # xs"
  "(x0 # x1 # x2 # xs)[2 := v] = x0 # x1 # v # xs"
  "(x0 # x1 # x2 # x3 # xs)[3 := v] = x0 # x1 # x2 # v # xs"
  "(x0 # x1 # x2 # x3 # x4 # xs)[4 := v] = x0 # x1 # x2 # x3 # v # xs"
  "(x0 # x1 # x2 # x3 # x4 # x5 # xs)[5 := v] = x0 # x1 # x2 # x3 # x4 # v # xs"
  "(x0 # x1 # x2 # x3 # x4 # x5 # x6 # xs)[6 := v] = x0 # x1 # x2 # x3 # x4 # x5 # v # xs"
  "(x0 # x1 # x2 # x3 # x4 # x5 # x6 # x7 # xs)[7 := v]
     = x0 # x1 # x2 # x3 # x4 # x5 # x6 # v # xs"
  "(x0 # x1 # x2 # x3 # x4 # x5 # x6 # x7 # x8 # xs)[8 := v]
     = x0 # x1 # x2 # x3 # x4 # x5 # x6 # x7 # v # xs"
  "(x0 # x1 # x2 # x3 # x4 # x5 # x6 # x7 # x8 # x9 # xs)[9 := v]
     = x0 # x1 # x2 # x3 # x4 # x5 # x6 # x7 # x8 # v # xs"
  "(x0 # x1 # x2 # x3 # x4 # x5 # x6 # x7 # x8 # x9 # x10 # xs)[10 := v]
     = x0 # x1 # x2 # x3 # x4 # x5 # x6 # x7 # x8 # x9 # v # xs"
  "(x0 # x1 # x2 # x3 # x4 # x5 # x6 # x7 # x8 # x9 # x10 # x11 # xs)[11 := v]
     = x0 # x1 # x2 # x3 # x4 # x5 # x6 # x7 # x8 # x9 # x10 # v # xs"
  "(x0 # x1 # x2 # x3 # x4 # x5 # x6 # x7 # x8 # x9 # x10 # x11 # x12 # xs)[12 := v]
     = x0 # x1 # x2 # x3 # x4 # x5 # x6 # x7 # x8 # x9 # x10 # x11 # v # xs"
  "(x0 # x1 # x2 # x3 # x4 # x5 # x6 # x7 # x8 # x9 # x10 # x11 # x12 # x13 # xs)[13 := v]
     = x0 # x1 # x2 # x3 # x4 # x5 # x6 # x7 # x8 # x9 # x10 # x11 # x12 # v # xs"
  by (simp_all add: numeral_eq_Suc)

lemma index_explicit:
  "toInt32 (js_index (x0 # xs) 0) = x0"
  "toInt32 (js_index (x0 # x1 # xs) (Suc 0)) = x1"
  by (simp_all add: js_index_def toInt32_def)

lemma createFrameBuffer_eq:
  assumes "data \<noteq> MaskBuf" and "length rnd = 4" and "length (h MaskBuf) = 4"
    and "length (h data) < 4294967296"
  shows "createFrameBuffer junk h data opc fin rsv1 rnd =
     Inr (h(MaskBuf := rnd, data := masked_bytes (h data) rnd),
          frame_byte0 opc fin rsv1 # frame_length_bytes (length (h data)) @ rnd
            @ masked_bytes (h data) rnd)"
proof -
  let ?len = "length (h data)"
  let ?h1 = "h(MaskBuf := rnd)"
  have h1: "randomFillSync h MaskBuf 0 4 rnd = ?h1"
    using assms(2,3) by (rule randomFillSync_mask)
  have am: "applyMask ?h1 data MaskBuf data 0 ?len
              = h(MaskBuf := rnd, data := masked_bytes (h data) rnd)"
    using applyMask_inplace_eq [where h = ?h1 and r = data and m = MaskBuf] assms(1,2)
    by simp
  obtain k0 k1 k2 k3 where rnd: "rnd = [k0, k1, k2, k3]"
    using assms(2) by (auto simp: length_Suc_conv numeral_eq_Suc)
  have keys: "toInt32 (js_index [k0, k1, k2, k3] 2) = k2"
    "toInt32 (js_index [k0, k1, k2, k3] 3) = k3"
    by (simp_all add: js_index_def toInt32_def)
  consider (small) "?len \<le> 125" | (medium) "125 < ?len" "?len \<le> 65535" | (large) "65536 \<le> ?len"
    by linarith
  then show ?thesis
  proof cases
    case small
    then have c: "\<not> 65536 \<le> ?len" "\<not> 125 < ?len" "?len \<noteq> 126" "?len \<noteq> 127" by simp_all
    show ?thesis
      unfolding createFrameBuffer_def Let_def h1 am
      using small
      by (simp add: c alloc_explicit update_explicit index_explicit keys frame_byte0_def
          frame_length_bytes_def rnd)
  next
    case medium
    then have c: "\<not> 65536 \<le> ?len" "125 < ?len" "\<not> ?len \<le> 125" by simp_all
    show ?thesis
      unfolding createFrameBuffer_def Let_def h1 am
      using medium
      by (simp add: c alloc_explicit update_explicit index_explicit keys frame_byte0_def
          frame_length_bytes_def writeUInt16BE_def rnd)
  next
    case large
    show ?thesis
      unfolding createFrameBuffer_def Let_def h1 am
      using large assms(4)
      by (simp add: alloc_explicit update_explicit index_explicit keys frame_byte0_def
          frame_length_bytes_def writeUInt32BE_def rnd)
  qed
qed

lemma masked_bytes_nth:
  "i < length payload \<Longrightarrow> masked_bytes payload key ! i = payload ! i XOR key ! (i mod 4)"
  by (simp add: masked_bytes_def)

lemma length_masked_bytes [simp]: "length (masked_bytes payload key) = length payload"
  by (simp add: masked_bytes_def)

lemma masked_bytes_twice: "masked_bytes (masked_bytes payload key) key = payload"
  by (rule nth_equalityI) (simp_all add: masked_bytes_nth xor.assoc)

text \<open>
  C9, as the code has it. \<open>createFrameBuffer\<close> masks the buffer it is given in place:
  afterwards that buffer holds the XOR-masked bytes (byte \<open>i\<close> XOR key byte \<open>i mod 4\<close>, so a
  byte changes exactly where its key byte is not 0), the module's \<open>mask\<close> buffer holds the
  key, and the frame ends with the masked bytes. \<open>Sender.send\<close> hands the caller's buffer
  to \<open>createFrameBuffer\<close>, so the caller's buffer is masked. \<open>Sender.pong\<close> hands over a
  copy, so the caller's buffer keeps its bytes and the copy is masked.
\<close>

theorem createFrameBuffer_masks_in_place:
  assumes "data \<noteq> MaskBuf" and "length rnd = 4" and "length (h MaskBuf) = 4"
    and "length (h data) < 4294967296"
  shows "createFrameBuffer junk h data opc fin rsv1 rnd =
           Inr (h(MaskBuf := rnd, data := masked_bytes (h data) rnd),
                frame_byte0 opc fin rsv1 # frame_length_bytes (length (h data)) @ rnd
                  @ masked_bytes (h data) rnd)
       \<and> (\<forall>i < length (h data).
             masked_bytes (h data) rnd ! i = h data ! i XOR rnd ! (i mod 4)
             \<and> (masked_bytes (h data) rnd ! i \<noteq> h data ! i \<longleftrightarrow> rnd ! (i mod 4) \<noteq> 0))
       \<and> snd (Sender_send junk this h data binary compress fin rnd) =
           Inr (h(MaskBuf := rnd, data := masked_bytes (h data) rnd),
                frame_byte0
                  (if firstFragment this
                   then (if binary then OpcodeBinaryFrame else OpcodeTextFrame)
                   else OpcodeContinueFrame)
                  fin (firstFragment this \<and> compress)
                  # frame_length_bytes (length (h data)) @ rnd @ masked_bytes (h data) rnd)
       \<and> (fresh \<noteq> data \<and> fresh \<noteq> MaskBuf \<longrightarrow>
            Sender_pong junk h data fresh rnd =
              Inr (h(MaskBuf := rnd, fresh := masked_bytes (h data) rnd),
                   frame_byte0 OpcodePong True False # frame_length_bytes (length (h data)) @ rnd
                     @ masked_bytes (h data) rnd)
            \<and> (h(MaskBuf := rnd, fresh := masked_bytes (h data) rnd)) data = h data)"
proof -
  note eq = createFrameBuffer_eq [OF assms]
  have x: "(a XOR k \<noteq> a) = (k \<noteq> 0)" for a k :: byte
  proof
    assume "a XOR k \<noteq> a"
    then show "k \<noteq> 0" by auto
  next
    assume k: "k \<noteq> 0"
    show "a XOR k \<noteq> a"
    proof
      assume "a XOR k = a"
      then have "a XOR (a XOR k) = a XOR a" by simp
      then have "k = 0" by (simp add: xor.assoc [symmetric])
      with k show False by simp
    qed
  qed
  have b: "\<forall>i < length (h data).
             masked_bytes (h data) rnd ! i = h data ! i XOR rnd ! (i mod 4)
             \<and> (masked_bytes (h data) rnd ! i \<noteq> h data ! i \<longleftrightarrow> rnd ! (i mod 4) \<noteq> 0)"
    by (simp add: masked_bytes_nth x)
  have c: "snd (Sender_send junk this h data binary compress fin rnd) =
           Inr (h(MaskBuf := rnd, data := masked_bytes (h data) rnd),
                frame_byte0
                  (if firstFragment this
                   then (if binary then OpcodeBinaryFrame else OpcodeTextFrame)
                   else OpcodeContinueFrame)
                  fin (firstFragment this \<and> compress)
                  # frame_length_bytes (length (h data)) @ rnd @ masked_bytes (h data) rnd)"
    by (simp add: Sender_send_def Let_def createFrameBuffer_eq [OF assms])
  have d: "Sender_pong junk h data fresh rnd =
              Inr (h(MaskBuf := rnd, fresh := masked_bytes (h data) rnd),
                   frame_byte0 OpcodePong True False # frame_length_bytes (length (h data)) @ rnd
                     @ masked_bytes (h data) rnd)
            \<and> (h(MaskBuf := rnd, fresh := masked_bytes (h data) rnd)) data = h data"
    if "fresh \<noteq> data" and "fresh \<noteq> MaskBuf"
  proof -
    let ?h0 = "Buffer_from h data fresh"
    have 1: "length (?h0 MaskBuf) = 4" using that assms(3) by (simp add: Buffer_from_def)
    have 2: "length (?h0 fresh) < 4294967296" using assms(4) by (simp add: Buffer_from_def)
    have 3: "?h0 fresh = h data" by (simp add: Buffer_from_def)
    have 4: "?h0(MaskBuf := rnd, fresh := masked_bytes (h data) rnd)
               = h(MaskBuf := rnd, fresh := masked_bytes (h data) rnd)"
      using that by (auto simp: Buffer_from_def fun_eq_iff)
    show ?thesis
      using createFrameBuffer_eq [OF that(2) assms(2) 1 2, of junk OpcodePong True False]
        that assms(1)
      by (simp add: Sender_pong_def 3 4)
  qed
  from eq b c d show ?thesis by blast
qed

theorem createFrameBuffer_masks_in_place_witness:
  "Buf 0 \<noteq> MaskBuf \<and> length [1, 2, 3, 4 :: byte] = 4 \<and> length (heap_keyed MaskBuf) = 4
   \<and> length (heap_keyed (Buf 0)) < 4294967296
   \<and> createFrameBuffer (\<lambda>i. 0) heap_keyed (Buf 0) OpcodeTextFrame True False [1, 2, 3, 4] =
        Inr (heap_keyed(MaskBuf := [1, 2, 3, 4],
               Buf 0 := masked_bytes (heap_keyed (Buf 0)) [1, 2, 3, 4]),
             frame_byte0 OpcodeTextFrame True False # frame_length_bytes (length (heap_keyed (Buf 0)))
               @ [1, 2, 3, 4] @ masked_bytes (heap_keyed (Buf 0)) [1, 2, 3, 4])
   \<and> masked_bytes (heap_keyed (Buf 0)) [1, 2, 3, 4] = [0x60, 0x60, 0x60, 0x60, 0x64]"
proof -
  have a: "Buf 0 \<noteq> MaskBuf" by simp
  have b: "length [1, 2, 3, 4 :: byte] = 4" by simp
  have c: "length (heap_keyed MaskBuf) = 4" by (simp add: heap_keyed_def)
  have d: "length (heap_keyed (Buf 0)) < 4294967296" by (simp add: heap_keyed_def)
  have e: "masked_bytes (heap_keyed (Buf 0)) [1, 2, 3, 4] = [0x60, 0x60, 0x60, 0x60, 0x64]"
    by code_simp
  from createFrameBuffer_masks_in_place [OF a b c d, of "\<lambda>i. 0" OpcodeTextFrame True False]
  show ?thesis using a b c d e by blast
qed

text \<open>
  The claim as stated fails for \<open>pong\<close>: after \<open>Sender.pong\<close> has built its frame from the
  caller's buffer \<open>Buf 0\<close> (the copy is \<open>Buf 1\<close>), the caller's buffer still holds the
  original bytes, while the payload of the frame is masked.
\<close>

theorem pong_keeps_callers_buffer:
  "fst (projr (Sender_pong (\<lambda>i. 0) heap_keyed (Buf 0) (Buf 1) [1, 2, 3, 4])) (Buf 0)
     = [0x61, 0x62, 0x63, 0x64, 0x65]
   \<and> fst (projr (Sender_pong (\<lambda>i. 0) heap_keyed (Buf 0) (Buf 1) [1, 2, 3, 4])) (Buf 1)
     = [0x60, 0x60, 0x60, 0x60, 0x64]
   \<and> snd (projr (Sender_pong (\<lambda>i. 0) heap_keyed (Buf 0) (Buf 1) [1, 2, 3, 4]))
     = [0x8A, 0x85, 1, 2, 3, 4, 0x60, 0x60, 0x60, 0x60, 0x64]"
proof -
  let ?h0 = "Buffer_from heap_keyed (Buf 0) (Buf 1)"
  have 1: "Buf 1 \<noteq> MaskBuf" by simp
  have 2: "length [1, 2, 3, 4 :: byte] = 4" by simp
  have 3: "length (?h0 MaskBuf) = 4" by (simp add: Buffer_from_def heap_keyed_def)
  have 4: "length (?h0 (Buf 1)) < 4294967296" by (simp add: Buffer_from_def heap_keyed_def)
  have 5: "?h0 (Buf 1) = [0x61, 0x62, 0x63, 0x64, 0x65]"
    by (simp add: Buffer_from_def heap_keyed_def)
  have m: "masked_bytes [0x61, 0x62, 0x63, 0x64, 0x65] [1, 2, 3, 4]
             = [0x60, 0x60, 0x60, 0x60, 0x64]"
    by code_simp
  have eq: "Sender_pong (\<lambda>i. 0) heap_keyed (Buf 0) (Buf 1) [1, 2, 3, 4] =
     Inr (?h0(MaskBuf := [1, 2, 3, 4], Buf 1 := masked_bytes (?h0 (Buf 1)) [1, 2, 3, 4]),
          frame_byte0 OpcodePong True False # frame_length_bytes (length (?h0 (Buf 1)))
            @ [1, 2, 3, 4] @ masked_bytes (?h0 (Buf 1)) [1, 2, 3, 4])"
    unfolding Sender_pong_def by (rule createFrameBuffer_eq [OF 1 2 3 4])
  show ?thesis
    unfolding eq
    by (simp add: 5 m frame_byte0_def frame_length_bytes_def OpcodePong_def)
       (simp add: Buffer_from_def heap_keyed_def m)
qed

section \<open>Decoding what the sender has encoded\<close>

lemma unat_small: "L < 256 \<Longrightarrow> unat (of_nat L :: byte) = L"
  by (simp add: unat_of_nat)

lemma low7:
  assumes "L \<le> 125"
  shows "(0x7F :: byte) AND (of_nat L OR 0x80) = of_nat L"
proof -
  have m: "(0x7F :: byte) = mask 7" by (simp add: mask_eq_exp_minus_1)
  have "unat (of_nat L :: byte) < unat (2 ^ 7 :: byte)"
    using assms by (simp add: unat_small)
  then have "(of_nat L :: byte) < 2 ^ 7" by (simp only: word_less_nat_alt)
  then have "(of_nat L :: byte) AND mask 7 = of_nat L" by (rule less_mask_eq)
  then have a: "(of_nat L :: byte) AND 0x7F = of_nat L" by (simp only: m)
  have z: "(0x80 :: byte) AND 0x7F = 0" by simp
  have "(of_nat L OR 0x80) AND (0x7F :: byte) = (of_nat L AND 0x7F) OR (0x80 AND 0x7F)"
    by (rule bit.conj_disj_distrib2)
  also have "\<dots> = of_nat L" by (simp only: a z) simp
  finally show ?thesis by (simp add: and.commute)
qed

lemma or_add:
  assumes "(b::nat) < 256"
  shows "push_bit 8 a OR b = a * 256 + b"
proof -
  have b: "take_bit 8 b = b" using assms by (simp add: take_bit_nat_eq_self)
  have "push_bit 8 a AND take_bit 8 b = 0"
    by (auto simp: bit_eq_iff bit_simps)
  then have "push_bit 8 a + b = push_bit 8 a OR b"
    using b disjunctive_add_eq_or [of "push_bit 8 a" b] by simp
  then show ?thesis by (simp add: push_bit_eq_mult)
qed

lemma be16:
  assumes "L \<le> 65535"
  shows "push_bit 8 (unat (of_nat (L div 256) :: byte)) OR (unat (of_nat L :: byte) AND 0xffff) = L"
proof -
  have hi: "unat (of_nat (L div 256) :: byte) = L div 256"
    using assms by (simp add: unat_small)
  have lo: "unat (of_nat L :: byte) = L mod 256" by (simp add: unat_of_nat)
  have "(0xffff :: nat) = mask 16" by (simp add: mask_eq_exp_minus_1)
  then have "(L mod 256) AND 0xffff = take_bit 16 (L mod 256)"
    by (simp add: take_bit_eq_mask)
  also have "\<dots> = L mod 256" by (simp add: take_bit_nat_eq_self)
  finally have lo2: "(L mod 256) AND 0xffff = L mod 256" .
  show ?thesis
    by (simp only: hi lo lo2) (simp add: or_add)
qed

lemma encoded_header:
  assumes "opc \<in> {OpcodeTextFrame, OpcodeBinaryFrame, OpcodeConnectionClose, OpcodePing, OpcodePong}"
  shows "frame_opcode ((opc OR 0x80) # frame_length_bytes len @ rest) = opc"
    and "frame_isFin ((opc OR 0x80) # frame_length_bytes len @ rest)"
    and "frame_isMasked ((opc OR 0x80) # frame_length_bytes len @ rest)"
    and "len \<le> 65535 \<Longrightarrow>
           frame_payloadDataLength ((opc OR 0x80) # frame_length_bytes len @ rest) = len"
    and "65536 \<le> len \<Longrightarrow>
           frame_payloadLength ((opc OR 0x80) # frame_length_bytes len @ rest) = 127"
proof -
  show "frame_opcode ((opc OR 0x80) # frame_length_bytes len @ rest) = opc"
    using assms by (auto simp: frame_defs)
  show "frame_isFin ((opc OR 0x80) # frame_length_bytes len @ rest)"
    by (simp add: frame_defs)
  show "frame_isMasked ((opc OR 0x80) # frame_length_bytes len @ rest)"
    by (simp add: frame_defs frame_length_bytes_def)
  show "frame_payloadDataLength ((opc OR 0x80) # frame_length_bytes len @ rest) = len"
    if "len \<le> 65535"
  proof (cases "len \<le> 125")
    case True
    have "unat (of_nat len :: byte) = len" using True by (simp add: unat_small)
    then have "(of_nat len :: byte) \<noteq> 126" using True by auto
    with True show ?thesis
      by (simp add: frame_payloadDataLength_def frame_payloadLength_def PayloadLengthMask_def
          js_index_def toInt32_def frame_length_bytes_def low7 unat_small)
  next
    case False
    with that be16 [OF that] show ?thesis
      by (simp add: frame_payloadDataLength_def frame_payloadLength_def PayloadLengthMask_def
          js_index_def toInt32_def frame_length_bytes_def)
  qed
  show "frame_payloadLength ((opc OR 0x80) # frame_length_bytes len @ rest) = 127"
    if "65536 \<le> len"
    using that
    by (simp add: frame_payloadLength_def PayloadLengthMask_def js_index_def toInt32_def
        frame_length_bytes_def)
qed

text \<open>
  C1, as the code has it. For a text, binary, close, ping or pong opcode, a payload of
  fewer than \<open>2 ^ 32\<close> bytes and a 4-byte key, the frame built with FIN set is the byte
  \<open>0x80 | opcode\<close>, the length bytes with the MASK bit set, the key and the payload XORed
  with the key; XORing again gives the payload back, and the header fields that the
  decoder reads from the frame are the opcode, FIN, and the length (up to 65535; beyond
  that the length field is 127, which the decoder does not support). But the client's
  decoder does not give the message back: it rejects the frame as masked, raising the
  error "Received masked data from server", and enters nothing into the response stack
  and dispatches nothing. Without a listener for \<open>'error'\<close> the error is thrown out of the
  delivery; with one, on an open connection, a close frame with status 1002 is sent.
\<close>

theorem encoded_frame_rejected:
  assumes "opc \<in> {OpcodeTextFrame, OpcodeBinaryFrame, OpcodeConnectionClose, OpcodePing, OpcodePong}"
    and "data \<noteq> MaskBuf" and "length rnd = 4" and "length (h MaskBuf) = 4"
    and "length (h data) < 4294967296"
  shows "let frame = (opc OR 0x80) # frame_length_bytes (length (h data)) @ rnd
                       @ masked_bytes (h data) rnd
         in createFrameBuffer junk h data opc True False rnd =
              Inr (h(MaskBuf := rnd, data := masked_bytes (h data) rnd), frame)
          \<and> masked_bytes (masked_bytes (h data) rnd) rnd = h data
          \<and> frame_opcode frame = opc \<and> frame_isFin frame \<and> frame_isMasked frame
          \<and> (length (h data) \<le> 65535 \<longrightarrow> frame_payloadDataLength frame = length (h data))
          \<and> (65536 \<le> length (h data) \<longrightarrow> frame_payloadLength frame = 127)
          \<and> responseStack (state_of (processDataFrame s frame)) = responseStack s
          \<and> dispatched (state_of (processDataFrame s frame)) = dispatched s
          \<and> take (Suc (length (effects s))) (effects (state_of (processDataFrame s frame)))
               = effects s @ [EmitEvent_error masked_error]
          \<and> (\<not> errorListener s \<longrightarrow>
               processDataFramesInBuffer s (JBuffer frame) =
                 Throw masked_error
                   (s\<lparr>effects := effects s @ [EmitEvent_error masked_error]\<rparr>))
          \<and> (errorListener s \<and> readyState s = OPEN \<and> sender s \<longrightarrow>
               processDataFrame s frame =
                 Return Ret_undefined
                   (s\<lparr>readyState := CLOSING,
                      effects := effects s @ [EmitEvent_error masked_error,
                         Sender_close_call (Some 1002) (Some (message masked_error))],
                      pending := pending s
                         @ [Cb_close (Some 1002) (Some (message masked_error))]\<rparr>))"
proof -
  let ?frame = "(opc OR 0x80) # frame_length_bytes (length (h data)) @ rnd
                  @ masked_bytes (h data) rnd"
  have enc: "createFrameBuffer junk h data opc True False rnd =
              Inr (h(MaskBuf := rnd, data := masked_bytes (h data) rnd), ?frame)"
    using createFrameBuffer_eq [OF assms(2-5), of junk opc True False]
    by (simp add: frame_byte0_def)
  note hd = encoded_header [OF assms(1), of "length (h data)" "rnd @ masked_bytes (h data) rnd"]
  note rej = masked_frame_outcome(2-6) [OF hd(3), of s]
  from enc masked_bytes_twice [of "h data" rnd] hd rej show ?thesis
    unfolding Let_def by blast
qed

theorem encoded_frame_rejected_witness:
  "OpcodeTextFrame \<in> {OpcodeTextFrame, OpcodeBinaryFrame, OpcodeConnectionClose, OpcodePing,
                        OpcodePong}
   \<and> Buf 0 \<noteq> MaskBuf \<and> length [1, 2, 3, 4 :: byte] = 4 \<and> length (heap_keyed MaskBuf) = 4
   \<and> length (heap_keyed (Buf 0)) < 4294967296
   \<and> createFrameBuffer (\<lambda>i. 0) heap_keyed (Buf 0) OpcodeTextFrame True False [1, 2, 3, 4] =
        Inr (heap_keyed(MaskBuf := [1, 2, 3, 4],
               Buf 0 := masked_bytes (heap_keyed (Buf 0)) [1, 2, 3, 4]),
             (OpcodeTextFrame OR 0x80) # frame_length_bytes (length (heap_keyed (Buf 0)))
               @ [1, 2, 3, 4] @ masked_bytes (heap_keyed (Buf 0)) [1, 2, 3, 4])
   \<and> frame_isMasked ((OpcodeTextFrame OR 0x80) # frame_length_bytes (length (heap_keyed (Buf 0)))
               @ [1, 2, 3, 4] @ masked_bytes (heap_keyed (Buf 0)) [1, 2, 3, 4])
   \<and> dispatched (state_of (processDataFrame ws_open
          ((OpcodeTextFrame OR 0x80) # frame_length_bytes (length (heap_keyed (Buf 0)))
               @ [1, 2, 3, 4] @ masked_bytes (heap_keyed (Buf 0)) [1, 2, 3, 4])))
        = dispatched ws_open
   \<and> \<not> errorListener ws_open
   \<and> processDataFramesInBuffer ws_open
        (JBuffer ((OpcodeTextFrame OR 0x80) # frame_length_bytes (length (heap_keyed (Buf 0)))
               @ [1, 2, 3, 4] @ masked_bytes (heap_keyed (Buf 0)) [1, 2, 3, 4])) =
       Throw masked_error
         (ws_open\<lparr>effects := effects ws_open @ [EmitEvent_error masked_error]\<rparr>)"
proof -
  have a: "OpcodeTextFrame \<in> {OpcodeTextFrame, OpcodeBinaryFrame, OpcodeConnectionClose,
                                OpcodePing, OpcodePong}"
    by simp
  have b: "Buf 0 \<noteq> MaskBuf" by simp
  have c: "length [1, 2, 3, 4 :: byte] = 4" by simp
  have d: "length (heap_keyed MaskBuf) = 4" by (simp add: heap_keyed_def)
  have e: "length (heap_keyed (Buf 0)) < 4294967296" by (simp add: heap_keyed_def)
  have f: "\<not> errorListener ws_open" by (simp add: ws_open_def)
  from encoded_frame_rejected [OF a b c d e, of "\<lambda>i. 0" ws_open] f
  show ?thesis using a b c d e unfolding Let_def by blast
qed

text \<open>
  The claim as stated fails: the text frame that the sender builds from the payload
  "abcde" with the key 1, 2, 3, 4, handed to the decoder of an open connection, yields no
  message. With the listeners of the README's example the delivery throws the error
  "Received masked data from server"; with a listener for \<open>'error'\<close> the error is handed
  to it and the connection starts closing with 1002.
\<close>

theorem encode_then_decode_fails:
  "snd (projr (createFrameBuffer (\<lambda>i. 0) heap_keyed (Buf 0) OpcodeTextFrame True False
                 [1, 2, 3, 4]))
     = [0x81, 0x85, 1, 2, 3, 4, 0x60, 0x60, 0x60, 0x60, 0x64]
   \<and> processDataFramesInBuffer ws_open
        (JBuffer [0x81, 0x85, 1, 2, 3, 4, 0x60, 0x60, 0x60, 0x60, 0x64]) =
       Throw (Error (Lit ''Received masked data from server''))
         (ws_open\<lparr>effects :=
            [EmitEvent_error (Error (Lit ''Received masked data from server''))]\<rparr>)
   \<and> processDataFrame ws_listening
        [0x81, 0x85, 1, 2, 3, 4, 0x60, 0x60, 0x60, 0x60, 0x64] =
       Return Ret_undefined
         (ws_listening\<lparr>readyState := CLOSING,
            effects := [EmitEvent_error (Error (Lit ''Received masked data from server'')),
               Sender_close_call (Some 1002) (Some (Lit ''Received masked data from server''))],
            pending := [Cb_close (Some 1002) (Some (Lit ''Received masked data from server''))]\<rparr>)"
proof -
  have 1: "Buf 0 \<noteq> MaskBuf" by simp
  have 2: "length [1, 2, 3, 4 :: byte] = 4" by simp
  have 3: "length (heap_keyed MaskBuf) = 4" by (simp add: heap_keyed_def)
  have 4: "length (heap_keyed (Buf 0)) < 4294967296" by (simp add: heap_keyed_def)
  have 5: "heap_keyed (Buf 0) = [0x61, 0x62, 0x63, 0x64, 0x65]" by (simp add: heap_keyed_def)
  have m: "masked_bytes [0x61, 0x62, 0x63, 0x64, 0x65] [1, 2, 3, 4]
             = [0x60, 0x60, 0x60, 0x60, 0x64]"
    by code_simp
  have enc: "snd (projr (createFrameBuffer (\<lambda>i. 0) heap_keyed (Buf 0) OpcodeTextFrame True False
                 [1, 2, 3, 4]))
     = [0x81, 0x85, 1, 2, 3, 4, 0x60, 0x60, 0x60, 0x60, 0x64]"
    unfolding createFrameBuffer_eq [OF 1 2 3 4]
    by (simp add: 5 m frame_byte0_def frame_length_bytes_def OpcodeTextFrame_def)
  have dec: "processDataFramesInBuffer ws_open
        (JBuffer [0x81, 0x85, 1, 2, 3, 4, 0x60, 0x60, 0x60, 0x60, 0x64]) =
       Throw (Error (Lit ''Received masked data from server''))
         (ws_open\<lparr>effects :=
            [EmitEvent_error (Error (Lit ''Received masked data from server''))]\<rparr>)"
    by (simp add: ws_open_def run_defs disconnectAndEmitError_def protocolError_def)
  have dec2: "processDataFrame ws_listening
        [0x81, 0x85, 1, 2, 3, 4, 0x60, 0x60, 0x60, 0x60, 0x64] =
       Return Ret_undefined
         (ws_listening\<lparr>readyState := CLOSING,
            effects := [EmitEvent_error (Error (Lit ''Received masked data from server'')),
               Sender_close_call (Some 1002) (Some (Lit ''Received masked data from server''))],
            pending := [Cb_close (Some 1002) (Some (Lit ''Received masked data from server''))]\<rparr>)"
    by (simp add: ws_listening_def ws_open_def run_defs disconnectAndEmitError_def
        protocolError_def)
  from enc dec dec2 show ?thesis by simp
qed

end
